theory Spec2Isabelle
  imports Complex_Main "HOL-Library.Word"
begin

section \<open>color.ts: RGB channels as a hexadecimal string\<close>

text \<open>
  \<open>Number.prototype.toString(16)\<close> on an integer value: lower-case digits, no leading
  zeros, a minus sign in front of the digits of a negative number. The channels are
  modelled as \<open>int\<close>; a fractional number is outside this model.
\<close>

definition hexDigit :: "nat \<Rightarrow> char" where
  "hexDigit d = ''0123456789abcdef'' ! d"

fun natToString16 :: "nat \<Rightarrow> string" where
  "natToString16 n = (if n < 16 then [hexDigit n]
                      else natToString16 (n div 16) @ [hexDigit (n mod 16)])"

declare natToString16.simps [simp del]

definition toString16 :: "int \<Rightarrow> string" where
  "toString16 n = (if n < 0 then CHR ''-'' # natToString16 (nat (- n))
                   else natToString16 (nat n))"

text \<open>The inner helper of \<open>RgbToHexString\<close>; \<open>('0').repeat(k)\<close> is \<open>replicate k\<close>.\<close>

definition zeroPadNumber :: "string \<Rightarrow> nat \<Rightarrow> string" where
  "zeroPadNumber num desired_length =
     (if length num < desired_length
      then replicate (desired_length - length num) CHR ''0'' @ num
      else num)"

definition RgbToHexString :: "int \<Rightarrow> int \<Rightarrow> int \<Rightarrow> string" where
  "RgbToHexString red green blue =
     zeroPadNumber (toString16 red) 2 @
     zeroPadNumber (toString16 green) 2 @
     zeroPadNumber (toString16 blue) 2"

text \<open>
  Reading a group of digits back as a base-16 integer (what \<open>parseInt(s, 16)\<close> does on
  a string of hexadecimal digits). This is the inverse direction of the round trip and
  is not part of the repository.
\<close>

definition hexDigitValue :: "char \<Rightarrow> nat option" where
  "hexDigitValue c =
     map_of (zip ''0123456789abcdef'' [0, 1, 2, 3, 4, 5, 6, 7, 8, 9, 10, 11, 12, 13, 14, 15]) c"

fun parseHexFrom :: "nat \<Rightarrow> string \<Rightarrow> nat option" where
  "parseHexFrom acc [] = Some acc"
| "parseHexFrom acc (c # cs) =
     (case hexDigitValue c of
        None \<Rightarrow> None
      | Some d \<Rightarrow> parseHexFrom (16 * acc + d) cs)"

definition parseHex :: "string \<Rightarrow> int option" where
  "parseHex s = (if s = [] then None else map_option int (parseHexFrom 0 s))"

definition isHexChar :: "char \<Rightarrow> bool" where
  "isHexChar c = (hexDigitValue c \<noteq> None)"

section \<open>geom.ts: points, sizes and rectangles\<close>

record Point =
  pX :: int
  pY :: int

record Size =
  sWidth :: int
  sHeight :: int

record Rectangle =
  rSize :: Size
  rPosition :: Point

text \<open>The constructors, with their default arguments written out at the call sites.\<close>

definition newPoint :: "int \<Rightarrow> int \<Rightarrow> Point" where
  "newPoint x y = \<lparr>pX = x, pY = y\<rparr>"

definition newSize :: "int \<Rightarrow> int \<Rightarrow> Size" where
  "newSize w h = \<lparr>sWidth = w, sHeight = h\<rparr>"

definition newRectangle :: "int \<Rightarrow> int \<Rightarrow> int \<Rightarrow> int \<Rightarrow> Rectangle" where
  "newRectangle x y w h = \<lparr>rSize = newSize w h, rPosition = newPoint x y\<rparr>"

text \<open>The accessor pairs of \<open>Rectangle\<close>.\<close>

definition getX :: "Rectangle \<Rightarrow> int" where
  "getX r = pX (rPosition r)"

definition setX :: "int \<Rightarrow> Rectangle \<Rightarrow> Rectangle" where
  "setX v r = r\<lparr>rPosition := (rPosition r)\<lparr>pX := v\<rparr>\<rparr>"

definition getY :: "Rectangle \<Rightarrow> int" where
  "getY r = pY (rPosition r)"

definition setY :: "int \<Rightarrow> Rectangle \<Rightarrow> Rectangle" where
  "setY v r = r\<lparr>rPosition := (rPosition r)\<lparr>pY := v\<rparr>\<rparr>"

definition getWidth :: "Rectangle \<Rightarrow> int" where
  "getWidth r = sWidth (rSize r)"

definition setWidth :: "int \<Rightarrow> Rectangle \<Rightarrow> Rectangle" where
  "setWidth v r = r\<lparr>rSize := (rSize r)\<lparr>sWidth := v\<rparr>\<rparr>"

definition getHeight :: "Rectangle \<Rightarrow> int" where
  "getHeight r = sHeight (rSize r)"

definition setHeight :: "int \<Rightarrow> Rectangle \<Rightarrow> Rectangle" where
  "setHeight v r = r\<lparr>rSize := (rSize r)\<lparr>sHeight := v\<rparr>\<rparr>"

section \<open>Numbers as text\<close>

text \<open>
  A template literal turns a number into decimal text. For the integer values that occur
  here (a frame count) that is the digits, with a minus sign for a negative value.
\<close>

fun natToString10 :: "nat \<Rightarrow> string" where
  "natToString10 n = (if n < 10 then [hexDigit n]
                      else natToString10 (n div 10) @ [hexDigit (n mod 10)])"

declare natToString10.simps [simp del]

definition toString10 :: "int \<Rightarrow> string" where
  "toString10 n = (if n < 0 then CHR ''-'' # natToString10 (nat (- n))
                   else natToString10 (nat n))"

section \<open>Numbers as doubles\<close>

text \<open>
  A JavaScript number is an IEEE 754 double. The numbers the options hold are modelled
  by the real numbers they are (NaN and the infinities are not among them). A product
  of two of them is the exact product rounded to the nearest double, to the even one of
  two equally near, and to an infinity beyond the largest double; \<open>JsNumber\<close> is a
  result that may be infinite. The sign of a zero is not kept.

  A double is a multiple of its quantum \<open>2 ^ (e - 52)\<close>, where \<open>e\<close> is the exponent
  of its magnitude, at least \<open>-1022\<close> (below that the doubles are subnormal) and at
  most \<open>1023\<close>. \<open>expSearch\<close> climbs from \<open>-1022\<close> as long as the next power of
  two is not above the magnitude.
\<close>

datatype 'a JsNumber = Finite 'a | PlusInfinity | MinusInfinity

definition pow2 :: "int \<Rightarrow> real" where
  "pow2 e = (if 0 \<le> e then 2 ^ nat e else 1 / 2 ^ nat (- e))"

fun expSearch :: "nat \<Rightarrow> int \<Rightarrow> real \<Rightarrow> int" where
  "expSearch 0 e x = e"
| "expSearch (Suc n) e x = (if pow2 (e + 1) \<le> x then expSearch n (e + 1) x else e)"

definition exponentOf :: "real \<Rightarrow> int" where
  "exponentOf x = expSearch 2045 (- 1022) \<bar>x\<bar>"

definition roundHalfEven :: "real \<Rightarrow> int" where
  "roundHalfEven y =
     (let f = \<lfloor>y\<rfloor>; d = y - real_of_int f
      in if d < 1 / 2 then f else if 1 / 2 < d then f + 1
         else if even f then f else f + 1)"

definition nearestDouble :: "real \<Rightarrow> real JsNumber" where
  "nearestDouble x =
     (let quantum = pow2 (exponentOf x - 52);
          r = real_of_int (roundHalfEven (x / quantum)) * quantum
      in if pow2 1024 \<le> \<bar>r\<bar> then (if 0 < x then PlusInfinity else MinusInfinity)
         else Finite r)"

text \<open>The operator \<open>*\<close> on two numbers, and \<open>Math.ceil\<close>.\<close>

definition timesDouble :: "real \<Rightarrow> real \<Rightarrow> real JsNumber" where
  "timesDouble a b = nearestDouble (a * b)"

fun mathCeil :: "real JsNumber \<Rightarrow> int JsNumber" where
  "mathCeil (Finite r) = Finite \<lceil>r\<rceil>"
| "mathCeil PlusInfinity = PlusInfinity"
| "mathCeil MinusInfinity = MinusInfinity"

section \<open>Buffers\<close>

type_synonym byte = "8 word"
type_synonym Buffer = "byte list"

text \<open>
  \<open>buf.indexOf(value, byteOffset)\<close> of Node.js for a byte-sequence \<open>value\<close>: the
  first index at or after the offset at which \<open>value\<close> starts, or \<open>-1\<close>. A negative
  offset counts from the end of the buffer. An empty \<open>value\<close> is found at the offset
  itself (at most the buffer's length).
\<close>

fun searchFrom :: "Buffer \<Rightarrow> Buffer \<Rightarrow> nat \<Rightarrow> int" where
  "searchFrom v [] i = (if v = [] then int i else - 1)"
| "searchFrom v (b # bs) i =
     (if take (length v) (b # bs) = v then int i else searchFrom v bs (Suc i))"

definition clampIndex :: "nat \<Rightarrow> int \<Rightarrow> nat" where
  "clampIndex n i = (if i < 0 then nat (max 0 (int n + i)) else min (nat i) n)"

definition indexOf :: "Buffer \<Rightarrow> Buffer \<Rightarrow> int \<Rightarrow> int" where
  "indexOf buf v byteOffset =
     (let off = clampIndex (length buf) byteOffset
      in searchFrom v (drop off buf) off)"

text \<open>
  \<open>buf.slice(start, end)\<close> and \<open>buf.slice(start)\<close>: the bytes from \<open>start\<close> up to
  but not including \<open>end\<close>, both clamped to the buffer, negative indices counting from
  the end.
\<close>

definition slice :: "Buffer \<Rightarrow> int \<Rightarrow> int \<Rightarrow> Buffer" where
  "slice buf start end_ix =
     (let a = clampIndex (length buf) start; b = clampIndex (length buf) end_ix
      in take (b - a) (drop a buf))"

definition sliceFrom :: "Buffer \<Rightarrow> int \<Rightarrow> Buffer" where
  "sliceFrom buf start = slice buf start (int (length buf))"

section \<open>blueline.ts: constants, options and the constructor\<close>

definition JPEG_FILE_MAGIC_NUMBER :: Buffer where
  "JPEG_FILE_MAGIC_NUMBER = [0xff, 0xd8, 0xff]"

definition PNG_FILE_MAGIC_NUMBER :: Buffer where
  "PNG_FILE_MAGIC_NUMBER = [0x89, 0x50, 0x4e, 0x47]"

datatype FrameCodec = mjpeg | png

datatype LineDirection = left | right | up | down

text \<open>
  The interface \<open>BlueLineGeneratorOptions\<close> as it is declared: every field present,
  the two string unions as datatypes. A number is the real number the double is (NaN and
  the infinities are not among the options here); \<open>lineColor\<close> is the sequence of
  channel values.
\<close>

record BlueLineGeneratorOptions =
  input :: string
  output' :: string
  ffmpegPath :: string
  maxBuffer :: real
  length' :: real
  lineDirection :: LineDirection
  frameCodec :: FrameCodec
  lineColor :: "int list"
  fps :: real

text \<open>
  The object a caller really hands to the constructor: the command line passes
  \<open>undefined\<close> for what was not given, so every field may be absent (\<open>None\<close> stands
  for \<open>undefined\<close> and \<open>null\<close>), and the two unions arrive as plain strings.
\<close>

record SuppliedOptions =
  given_input :: "string option"
  given_output :: "string option"
  given_ffmpegPath :: "string option"
  given_maxBuffer :: "real option"
  given_length :: "real option"
  given_lineDirection :: "string option"
  given_frameCodec :: "string option"
  given_lineColor :: "int list option"
  given_fps :: "real option"

text \<open>
  The test \<open>!v\<close>: a string is falsy when absent or empty, a number when absent or
  zero, an array only when absent.
\<close>

definition falsyString :: "string option \<Rightarrow> bool" where
  "falsyString v = (case v of None \<Rightarrow> True | Some s \<Rightarrow> s = [])"

definition falsyNumber :: "real option \<Rightarrow> bool" where
  "falsyNumber v = (case v of None \<Rightarrow> True | Some x \<Rightarrow> x = 0)"

definition falsyArray :: "int list option \<Rightarrow> bool" where
  "falsyArray v = (case v of None \<Rightarrow> True | Some xs \<Rightarrow> False)"

text \<open>Membership in \<open>['mjpeg', 'png']\<close> and in \<open>['left', 'right', 'up', 'down']\<close>.\<close>

definition codecOfString :: "string \<Rightarrow> FrameCodec option" where
  "codecOfString s =
     (if s = ''mjpeg'' then Some mjpeg else if s = ''png'' then Some png else None)"

definition directionOfString :: "string \<Rightarrow> LineDirection option" where
  "directionOfString s =
     (if s = ''left'' then Some left else if s = ''right'' then Some right
      else if s = ''up'' then Some up else if s = ''down'' then Some down else None)"

definition DEFAULT_MAX_BUFFER :: real where
  "DEFAULT_MAX_BUFFER = 1024 * 1024 * 50"

text \<open>
  The default colour of the line. The revision of \<open>blueline.ts\<close> that draws the line
  has the three channels; the revision under \<open>src/blueline.ts\<close>, which draws no line
  yet, has an empty array under the same comment ("The default color of the blue line
  which is obviously blue").
\<close>

definition DEFAULT_LINE_COLOR :: "int list" where
  "DEFAULT_LINE_COLOR = [0, 194, 203]"

definition DEFAULT_LINE_COLOR_src_blueline :: "int list" where
  "DEFAULT_LINE_COLOR_src_blueline = []"

definition DEFAULT_LENGTH :: real where
  "DEFAULT_LENGTH = 10"

definition DEFAULT_FRAME_CODEC :: FrameCodec where
  "DEFAULT_FRAME_CODEC = mjpeg"

definition DEFAULT_LINE_DIRECTION :: LineDirection where
  "DEFAULT_LINE_DIRECTION = right"

definition DEFAULT_FRAMERATE :: real where
  "DEFAULT_FRAMERATE = 25.0"

datatype JsError = Error string

text \<open>What the error handler is called with: a message or an error object.\<close>

datatype Reported = Message string | Failure JsError

text \<open>
  The effects a run has on the outside, in the order they happen: the two FFmpeg
  processes started, the calls of the error handler, what is drawn, what is written to
  the encoder's standard input and its closing, and a rejection nobody handles.
\<close>

datatype Event =
    SpawnDecoder string string FrameCodec real "int JsNumber" real
  | SpawnEncoder string FrameCodec real string
  | ErrorHandlerCall Reported
  | DrawImage Rectangle
  | Stroke Point Point
  | StdinWrite nat
  | StdinEnd
  | UnhandledRejection JsError

text \<open>
  The private state of a \<open>BlueLineGenerator\<close>. A canvas is its size. The listener
  for \<open>'error'\<close> on the encoder's standard input is the bound \<open>OnEffectError\<close> or
  nothing, so a flag records it. The error handler is the caller's function; it is
  modelled as a sink that records the call and returns. The fields the constructor does
  not assign (all but \<open>options\<close> and the handler) start with the value their first
  assignment gives them or with zero; no method reads one before Generate,
  OnFfmpegFramesOutputFinished and DoEffect have assigned it. \<open>strokeStyle\<close> is the
  output canvas context's stroke colour.
\<close>

record BlueLineGenerator =
  options :: BlueLineGeneratorOptions
  totalFrames :: int
  frameImages :: "Buffer list"
  effectCanvas :: Size
  outputCanvas :: Size
  currentFrameNum :: nat
  cropRect :: Rectangle
  cropRectShrinkSize :: Size
  strokeStyle :: string
  stdinErrorListener :: bool
  trace :: "Event list"

definition emit :: "Event \<Rightarrow> BlueLineGenerator \<Rightarrow> BlueLineGenerator" where
  "emit e g = g\<lparr>trace := trace g @ [e]\<rparr>"

definition errorHandler :: "Reported \<Rightarrow> BlueLineGenerator \<Rightarrow> BlueLineGenerator" where
  "errorHandler r g = emit (ErrorHandlerCall r) g"

text \<open>
  The constructor, with the default colour as a parameter because the two revisions
  differ in nothing else here. The checks run in the order of the source; a \<open>throw\<close>
  is \<open>Inl\<close>.
\<close>

definition fillOptions :: "int list \<Rightarrow> SuppliedOptions \<Rightarrow> BlueLineGeneratorOptions" where
  "fillOptions defaultColor opts =
     \<lparr> input = the (given_input opts),
       output' = the (given_output opts),
       ffmpegPath =
         (if falsyString (given_ffmpegPath opts) then ''ffmpeg''
          else the (given_ffmpegPath opts)),
       maxBuffer =
         (if falsyNumber (given_maxBuffer opts) then DEFAULT_MAX_BUFFER
          else the (given_maxBuffer opts)),
       length' =
         (if falsyNumber (given_length opts) then DEFAULT_LENGTH
          else the (given_length opts)),
       lineDirection =
         (if falsyString (given_lineDirection opts) then DEFAULT_LINE_DIRECTION
          else (case directionOfString (the (given_lineDirection opts)) of
                  None \<Rightarrow> DEFAULT_LINE_DIRECTION
                | Some d \<Rightarrow> d)),
       frameCodec =
         (if falsyString (given_frameCodec opts) then DEFAULT_FRAME_CODEC
          else (case codecOfString (the (given_frameCodec opts)) of
                  None \<Rightarrow> DEFAULT_FRAME_CODEC
                | Some c \<Rightarrow> c)),
       lineColor =
         (if falsyArray (given_lineColor opts) then defaultColor
          else the (given_lineColor opts)),
       fps =
         (if falsyNumber (given_fps opts) then DEFAULT_FRAMERATE
          else the (given_fps opts)) \<rparr>"

definition constructorWith :: "int list \<Rightarrow> SuppliedOptions \<Rightarrow> JsError + BlueLineGenerator" where
  "constructorWith defaultColor opts =
     (if falsyString (given_input opts) then Inl (Error ''No input specified.'')
      else if falsyString (given_output opts) then Inl (Error ''No output specified.'')
      else Inr \<lparr> options = fillOptions defaultColor opts,
                 totalFrames = 0,
                 frameImages = [],
                 effectCanvas = newSize 0 0,
                 outputCanvas = newSize 0 0,
                 currentFrameNum = 0,
                 cropRect = newRectangle 0 0 0 0,
                 cropRectShrinkSize = newSize 0 0,
                 strokeStyle = [],
                 stdinErrorListener = False,
                 trace = [] \<rparr>)"

definition "constructor" :: "SuppliedOptions \<Rightarrow> JsError + BlueLineGenerator" where
  "constructor = constructorWith DEFAULT_LINE_COLOR"

definition constructor_src_blueline :: "SuppliedOptions \<Rightarrow> JsError + BlueLineGenerator" where
  "constructor_src_blueline = constructorWith DEFAULT_LINE_COLOR_src_blueline"

section \<open>blueline.ts: Generate and the extraction of the frames\<close>

text \<open>
  \<open>Generate\<close>: the input file must exist; the number of frames is
  \<open>Math.ceil(fps * length)\<close>; the decoding FFmpeg is started with it.
  \<open>fs.existsSync\<close> is a parameter. The result is the effects so far and the state
  Generate leaves. The states of this model hold an integer frame count, so for an
  infinite count only the effects are given.
\<close>

definition totalFramesOf :: "real \<Rightarrow> real \<Rightarrow> int JsNumber" where
  "totalFramesOf fps_value length_value = mathCeil (timesDouble fps_value length_value)"

definition Generate ::
  "(string \<Rightarrow> bool) \<Rightarrow> BlueLineGenerator \<Rightarrow> JsError + Event list \<times> BlueLineGenerator option" where
  "Generate existsSync g =
     (if \<not> existsSync (input (options g)) then Inl (Error ''Input file does not exist.'')
      else
        (let frames = totalFramesOf (fps (options g)) (length' (options g));
             started = SpawnDecoder (ffmpegPath (options g)) (input (options g))
                         (frameCodec (options g)) (fps (options g)) frames
                         (maxBuffer (options g))
         in Inr (trace g @ [started],
                 case frames of
                   Finite n \<Rightarrow>
                     Some ((emit started (g\<lparr>totalFrames := n\<rparr>))\<lparr>currentFrameNum := 0\<rparr>)
                 | PlusInfinity \<Rightarrow> None
                 | MinusInfinity \<Rightarrow> None)))"

definition magicNumber :: "FrameCodec \<Rightarrow> Buffer" where
  "magicNumber codec =
     (if codec = mjpeg then JPEG_FILE_MAGIC_NUMBER else PNG_FILE_MAGIC_NUMBER)"

lemma magicNumber_length: "0 < length (magicNumber codec)"
  by (simp add: magicNumber_def JPEG_FILE_MAGIC_NUMBER_def PNG_FILE_MAGIC_NUMBER_def)

lemma searchFrom_range:
  "v \<noteq> [] \<Longrightarrow> searchFrom v xs i = - 1
     \<or> (int i \<le> searchFrom v xs i \<and> searchFrom v xs i < int (i + length xs))"
proof (induction xs arbitrary: i)
  case Nil
  then show ?case by simp
next
  case (Cons b bs)
  from Cons.IH [OF Cons.prems, of "Suc i"] show ?case by auto
qed

lemma indexOf_range:
  assumes "v \<noteq> []"
  shows "indexOf buf v off = - 1
     \<or> (int (clampIndex (length buf) off) \<le> indexOf buf v off
        \<and> indexOf buf v off < int (length buf))"
proof -
  have le: "clampIndex (length buf) off \<le> length buf"
    by (auto simp: clampIndex_def)
  from searchFrom_range [OF assms, of "drop (clampIndex (length buf) off) buf"
      "clampIndex (length buf) off"] le
  show ?thesis by (auto simp: indexOf_def Let_def)
qed

text \<open>
  The \<open>while\<close> loop of \<open>OnFfmpegFramesOutputFinished\<close>, as a function of its three
  variables. It ends because the next match lies behind the present one.
\<close>

function extractLoop :: "FrameCodec \<Rightarrow> Buffer \<Rightarrow> int \<Rightarrow> int \<Rightarrow> Buffer list \<Rightarrow> Buffer list" where
  "extractLoop codec stdout startIndex endIndex frames =
     (if startIndex \<noteq> - 1 then
        (if endIndex \<noteq> - 1 then
           extractLoop codec stdout endIndex
             (indexOf stdout (magicNumber codec) (endIndex + int (length (magicNumber codec))))
             (frames @ [slice stdout startIndex endIndex])
         else frames @ [sliceFrom stdout startIndex])
      else frames)"
  by pat_completeness auto
termination
proof (relation "measure (\<lambda>(codec, stdout, startIndex, endIndex, frames).
        if endIndex = - 1 then 0
        else if 0 \<le> endIndex \<and> endIndex < int (length stdout)
          then 1 + (length stdout - nat endIndex)
        else length stdout + 2)", goal_cases)
  case 1
  show ?case by simp
next
  case (2 codec stdout startIndex endIndex frames)
  have ne: "magicNumber codec \<noteq> []"
    using magicNumber_length [of codec] by simp
  define L where "L = int (length (magicNumber codec))"
  define e' where "e' = indexOf stdout (magicNumber codec) (endIndex + L)"
  have Lpos: "0 < L" using magicNumber_length [of codec] by (simp add: L_def)
  from indexOf_range [OF ne, of stdout "endIndex + L"]
  have r: "e' = - 1 \<or> (int (clampIndex (length stdout) (endIndex + L)) \<le> e'
            \<and> e' < int (length stdout))"
    by (simp add: e'_def)
  have "e' = - 1 \<or> (0 \<le> e' \<and> e' < int (length stdout)
          \<and> (0 \<le> endIndex \<and> endIndex < int (length stdout) \<longrightarrow> endIndex < e'))"
    using r Lpos by (auto simp: clampIndex_def split: if_splits)
  with 2 show ?case
    unfolding e'_def L_def by (auto split: if_splits)
qed

declare extractLoop.simps [simp del]

definition extractFrames :: "FrameCodec \<Rightarrow> Buffer \<Rightarrow> Buffer list" where
  "extractFrames codec stdout =
     (let startIndex = indexOf stdout (magicNumber codec) 0;
          endIndex = indexOf stdout (magicNumber codec)
                       (startIndex + int (length (magicNumber codec)))
      in extractLoop codec stdout startIndex endIndex [])"

text \<open>
  What "a buffer of concatenated images" means for the scan. The magic number occurs at
  an offset when the bytes from there on begin with it. An image starts with the magic
  number; the images of a list, laid end to end, start at \<open>imageOffsets 0\<close>; and the
  magic number occurs only at the images' starts when every offset of the whole buffer
  at which it occurs is one of these. These three are not part of the repository: the
  code checks none of them.
\<close>

definition occursAt :: "Buffer \<Rightarrow> Buffer \<Rightarrow> nat \<Rightarrow> bool" where
  "occursAt v buf q = (take (length v) (drop q buf) = v)"

fun imageOffsets :: "nat \<Rightarrow> Buffer list \<Rightarrow> nat list" where
  "imageOffsets p [] = []"
| "imageOffsets p (x # xs) = p # imageOffsets (p + length x) xs"

definition startsWithMagic :: "FrameCodec \<Rightarrow> Buffer \<Rightarrow> bool" where
  "startsWithMagic codec img = occursAt (magicNumber codec) img 0"

definition magicOnlyAtStarts :: "FrameCodec \<Rightarrow> Buffer list \<Rightarrow> bool" where
  "magicOnlyAtStarts codec imgs =
     (\<forall>q \<in> set [0 ..< length (concat imgs)].
        occursAt (magicNumber codec) (concat imgs) q \<longrightarrow> q \<in> set (imageOffsets 0 imgs))"

definition noMagic :: "FrameCodec \<Rightarrow> Buffer \<Rightarrow> bool" where
  "noMagic codec buf = (\<forall>q \<in> set [0 ..< length buf]. \<not> occursAt (magicNumber codec) buf q)"

definition notEnoughFramesMessage :: "int \<Rightarrow> nat \<Rightarrow> string" where
  "notEnoughFramesMessage expected got =
     ''Not enough frames were exported to fulfill the length of the effect. Expected ''
     @ toString10 expected @ '' but got '' @ toString10 (int got) @ [CHR ''.'', CHR 0x0A]
     @ ''Specify effect length with the -l argument.''"

section \<open>blueline.ts: the effect, frame by frame\<close>

text \<open>
  The block run while the effect canvas still has width zero: both canvases take the
  image's size, the stroke colour is set from the first three channels (a missing
  channel is \<open>undefined\<close>, and \<open>undefined.toString\<close> throws a TypeError), the crop
  rectangle takes the image's size and the shrink size gets the component of the
  direction's axis (\<open>cropToFirstFrame\<close>, the last statements of the block, on the
  pair of crop rectangle and shrink size). The division \<open>image.width / totalFrames\<close>
  is the real quotient, which has the ceiling of the double quotient for the whole
  numbers below \<open>2 ^ 53\<close> that image sizes are and a frame count of at least 1; for a
  frame count of zero JavaScript's quotient is \<open>Infinity\<close> or \<open>NaN\<close>, which this
  definition does not give.
\<close>

fun cropToFirstFrame ::
  "LineDirection \<Rightarrow> int \<Rightarrow> Size \<Rightarrow> Rectangle \<times> Size \<Rightarrow> Rectangle \<times> Size" where
  "cropToFirstFrame dir n img (rect, shrink) =
     (rect\<lparr>rSize := newSize (sWidth img) (sHeight img)\<rparr>,
      case dir of
        left \<Rightarrow> shrink\<lparr>sWidth := \<lceil>real_of_int (sWidth img) / real_of_int n\<rceil>\<rparr>
      | right \<Rightarrow> shrink\<lparr>sWidth := \<lceil>real_of_int (sWidth img) / real_of_int n\<rceil>\<rparr>
      | up \<Rightarrow> shrink\<lparr>sHeight := \<lceil>real_of_int (sHeight img) / real_of_int n\<rceil>\<rparr>
      | down \<Rightarrow> shrink\<lparr>sHeight := \<lceil>real_of_int (sHeight img) / real_of_int n\<rceil>\<rparr>)"

definition firstFrameSetup :: "Size \<Rightarrow> BlueLineGenerator \<Rightarrow> JsError + BlueLineGenerator" where
  "firstFrameSetup img g =
     (if sWidth (effectCanvas g) = 0 then
        (if length (lineColor (options g)) < 3 then Inl (Error ''TypeError'')
         else
           (let g1 = g\<lparr>effectCanvas := newSize (sWidth img) (sHeight img),
                       outputCanvas := newSize (sWidth img) (sHeight img)\<rparr>;
                c = lineColor (options g1);
                g2 = g1\<lparr>strokeStyle := CHR ''#'' # RgbToHexString (c ! 0) (c ! 1) (c ! 2)\<rparr>;
                crop = cropToFirstFrame (lineDirection (options g2)) (totalFrames g2) img
                         (cropRect g2, cropRectShrinkSize g2)
            in Inr (g2\<lparr>cropRect := fst crop, cropRectShrinkSize := snd crop\<rparr>)))
      else Inr g)"

text \<open>Where the line is stroked: the arguments of \<open>moveTo\<close> and of \<open>lineTo\<close>.\<close>

fun lineEnds :: "LineDirection \<Rightarrow> Rectangle \<Rightarrow> Point \<times> Point" where
  "lineEnds left r = (newPoint (getWidth r) 0, newPoint (getWidth r) (getHeight r))"
| "lineEnds right r = (newPoint (getX r) 0, newPoint (getX r) (getHeight r))"
| "lineEnds up r = (newPoint 0 (getHeight r), newPoint (getWidth r) (getHeight r))"
| "lineEnds down r = (newPoint 0 (getY r), newPoint (getWidth r) (getY r))"

text \<open>
  The last \<open>switch\<close> of the per-frame step: the crop rectangle is moved on for the next
  frame. \<open>a -= b\<close> on an accessor reads through the getter and writes through the
  setter.
\<close>

fun advance :: "LineDirection \<Rightarrow> Size \<Rightarrow> Rectangle \<Rightarrow> Rectangle" where
  "advance left shrink r = setWidth (getWidth r - sWidth shrink) r"
| "advance right shrink r =
     (let r1 = setWidth (getWidth r - sWidth shrink) r
      in setX (getX r1 + sWidth shrink) r1)"
| "advance up shrink r = setHeight (getHeight r - sHeight shrink) r"
| "advance down shrink r =
     (let r1 = setHeight (getHeight r - sHeight shrink) r
      in setY (getY r1 + sHeight shrink) r1)"

definition GetNextFrame :: "BlueLineGenerator \<Rightarrow> Buffer option \<times> BlueLineGenerator" where
  "GetNextFrame g =
     (if currentFrameNum g \<ge> length (frameImages g) then (None, g)
      else (Some (frameImages g ! currentFrameNum g),
            g\<lparr>currentFrameNum := currentFrameNum g + 1\<rparr>))"

text \<open>
  \<open>DoEffectSingleFrame\<close>. \<open>loadImage\<close> of the canvas library is a parameter that
  gives the decoded image's size or the error it rejects with. A rejection leaves the
  function at once (\<open>Inl\<close>).
\<close>

definition DoEffectSingleFrame ::
  "(Buffer \<Rightarrow> JsError + Size) \<Rightarrow> Buffer option \<Rightarrow> BlueLineGenerator \<Rightarrow> JsError + BlueLineGenerator" where
  "DoEffectSingleFrame loadImage frame g =
     (case frame of
        None \<Rightarrow> Inr (emit StdinEnd g)
      | Some f \<Rightarrow>
          (case loadImage f of
             Inl e \<Rightarrow> Inl e
           | Inr img \<Rightarrow>
               (case firstFrameSetup img g of
                  Inl e \<Rightarrow> Inl e
                | Inr g1 \<Rightarrow>
                    (let g2 = emit (DrawImage (cropRect g1)) g1;
                         g3 = emit (Stroke (fst (lineEnds (lineDirection (options g2)) (cropRect g2)))
                                           (snd (lineEnds (lineDirection (options g2)) (cropRect g2)))) g2;
                         g4 = emit (StdinWrite (currentFrameNum g3)) g3
                     in Inr (g4\<lparr>cropRect := advance (lineDirection (options g4))
                                    (cropRectShrinkSize g4) (cropRect g4)\<rparr>)))))"

lemma firstFrameSetup_frames:
  "firstFrameSetup img g = Inr g1 \<Longrightarrow>
     frameImages g1 = frameImages g \<and> currentFrameNum g1 = currentFrameNum g"
  by (auto simp: firstFrameSetup_def Let_def split: if_splits)

lemma DoEffectSingleFrame_frames:
  "DoEffectSingleFrame loadImage (Some f) g = Inr g' \<Longrightarrow>
     frameImages g' = frameImages g \<and> currentFrameNum g' = currentFrameNum g"
  by (auto simp: DoEffectSingleFrame_def Let_def emit_def
      split: sum.splits dest: firstFrameSetup_frames)

text \<open>
  The chain of frames: each frame's output stream, once closed, calls
  \<open>DoEffectSingleFrame\<close> with the next frame, until \<open>GetNextFrame\<close> gives \<open>null\<close>.
  The streams are taken to close; a rejection of \<open>DoEffectSingleFrame\<close> is awaited by
  nobody and ends the chain.
\<close>

function runFrames :: "(Buffer \<Rightarrow> JsError + Size) \<Rightarrow> BlueLineGenerator \<Rightarrow> BlueLineGenerator" where
  "runFrames loadImage g =
     (case GetNextFrame g of
        (None, g1) \<Rightarrow>
          (case DoEffectSingleFrame loadImage None g1 of
             Inl e \<Rightarrow> emit (UnhandledRejection e) g1
           | Inr g2 \<Rightarrow> g2)
      | (Some f, g1) \<Rightarrow>
          (case DoEffectSingleFrame loadImage (Some f) g1 of
             Inl e \<Rightarrow> emit (UnhandledRejection e) g1
           | Inr g2 \<Rightarrow> runFrames loadImage g2))"
  by pat_completeness auto
termination
proof (relation "measure (\<lambda>(loadImage, g). length (frameImages g) - currentFrameNum g)", goal_cases)
  case 1
  show ?case by simp
next
  case (2 loadImage g x1 g1 f g2)
  from 2 have n: "GetNextFrame g = (Some f, g1)"
    and d: "DoEffectSingleFrame loadImage (Some f) g1 = Inr g2"
    by simp_all
  from n have a: "currentFrameNum g < length (frameImages g)"
    and b: "frameImages g1 = frameImages g" and c: "currentFrameNum g1 = currentFrameNum g + 1"
    by (auto simp: GetNextFrame_def split: if_splits)
  from DoEffectSingleFrame_frames [OF d] a b c show ?case by simp
qed

declare runFrames.simps [simp del]

text \<open>
  \<open>DoEffect\<close>: the encoding FFmpeg is started, \<open>OnEffectError\<close> is made the listener
  for errors of its standard input, canvases, crop rectangle and shrink size are created
  empty (\<open>beginEffect\<close>, the body up to its last statement), and the first frame is
  processed.
\<close>

definition beginEffect :: "BlueLineGenerator \<Rightarrow> BlueLineGenerator" where
  "beginEffect g =
     (let g1 = emit (SpawnEncoder (ffmpegPath (options g)) (frameCodec (options g))
                       (fps (options g)) (output' (options g))) g;
          g2 = g1\<lparr>stdinErrorListener := True\<rparr>
      in g2\<lparr>effectCanvas := newSize 0 0, outputCanvas := newSize 0 0,
             cropRect := newRectangle 0 0 0 0, cropRectShrinkSize := newSize 0 0\<rparr>)"

definition DoEffect :: "(Buffer \<Rightarrow> JsError + Size) \<Rightarrow> BlueLineGenerator \<Rightarrow> BlueLineGenerator" where
  "DoEffect loadImage g = runFrames loadImage (beginEffect g)"



text \<open>
  \<open>OnFfmpegFramesOutputFinished\<close>: an error of the decoding process is thrown; the
  frames are cut out of the captured output; too few frames are reported to the error
  handler; the effect is started.
\<close>

definition OnFfmpegFramesOutputFinished ::
  "(Buffer \<Rightarrow> JsError + Size) \<Rightarrow> JsError option \<Rightarrow> Buffer \<Rightarrow> BlueLineGenerator
     \<Rightarrow> JsError + BlueLineGenerator" where
  "OnFfmpegFramesOutputFinished loadImage error stdout g =
     (case error of
        Some e \<Rightarrow> Inl e
      | None \<Rightarrow>
          (let g1 = g\<lparr>frameImages := extractFrames (frameCodec (options g)) stdout\<rparr>;
               g2 = (if int (length (frameImages g1)) < totalFrames g1
                     then errorHandler (Message (notEnoughFramesMessage (totalFrames g1)
                                                   (length (frameImages g1)))) g1
                     else g1)
           in Inr (DoEffect loadImage g2)))"

section \<open>blueline.ts: errors while the effect is produced\<close>

text \<open>
  \<open>OnEffectError\<close> of the revision that draws the line: for an error it closes the
  encoder's standard input and then calls the error handler. \<open>None\<close> is a call without
  an error.
\<close>

definition OnEffectError :: "JsError option \<Rightarrow> BlueLineGenerator \<Rightarrow> BlueLineGenerator" where
  "OnEffectError error g =
     (case error of
        None \<Rightarrow> g
      | Some e \<Rightarrow> errorHandler (Failure e) (emit StdinEnd g))"

text \<open>
  \<open>OnEffectError\<close> of the revision under \<open>src/blueline.ts\<close>, where it is the callback
  of every \<open>stdin.write\<close>: it calls the error handler and nothing else.
\<close>

definition OnEffectError_src_blueline :: "JsError option \<Rightarrow> BlueLineGenerator \<Rightarrow> BlueLineGenerator" where
  "OnEffectError_src_blueline error g =
     (case error of
        None \<Rightarrow> g
      | Some e \<Rightarrow> errorHandler (Failure e) g)"

text \<open>
  An \<open>'error'\<close> event on the encoder's standard input (a failed write, a broken pipe).
  Node.js calls the listeners of the event; with no listener the error is thrown.
\<close>

definition stdinErrorEvent :: "JsError \<Rightarrow> BlueLineGenerator \<Rightarrow> JsError + BlueLineGenerator" where
  "stdinErrorEvent e g =
     (if stdinErrorListener g then Inr (OnEffectError (Some e) g) else Inl e)"

section \<open>index.ts: creating the generator and starting it\<close>

text \<open>
  The \<open>try\<close> block of the command line: the generator is constructed and
  \<open>Generate\<close> is called; an exception of either is caught. The result is the
  exception, if any, and the effects so far.
\<close>

definition createAndGenerate :: "(string \<Rightarrow> bool) \<Rightarrow> SuppliedOptions \<Rightarrow> JsError option \<times> Event list" where
  "createAndGenerate existsSync opts =
     (case constructor opts of
        Inl e \<Rightarrow> (Some e, [])
      | Inr g \<Rightarrow>
          (case Generate existsSync g of
             Inl e \<Rightarrow> (Some e, trace g)
           | Inr started \<Rightarrow> (None, fst started)))"

text \<open>
  What a trace holds of each kind: the calls of the error handler and the frames
  written to the encoder.
\<close>

fun handlerCalls :: "Event list \<Rightarrow> Reported list" where
  "handlerCalls [] = []"
| "handlerCalls (ErrorHandlerCall r # es) = r # handlerCalls es"
| "handlerCalls (e # es) = handlerCalls es"

fun writes :: "Event list \<Rightarrow> nat list" where
  "writes [] = []"
| "writes (StdinWrite n # es) = n # writes es"
| "writes (e # es) = writes es"

text \<open>
  The \<open>x\<close> coordinates at which lines were stroked (the argument of \<open>moveTo\<close>),
  and the crop rectangles with which frames were drawn, that is, each frame's rectangle
  before it is advanced.
\<close>

fun strokeXs :: "Event list \<Rightarrow> int list" where
  "strokeXs [] = []"
| "strokeXs (Stroke p q # es) = pX p # strokeXs es"
| "strokeXs (e # es) = strokeXs es"

fun drawnRects :: "Event list \<Rightarrow> Rectangle list" where
  "drawnRects [] = []"
| "drawnRects (DrawImage r # es) = r # drawnRects es"
| "drawnRects (e # es) = drawnRects es"

text \<open>
  A generator as Generate leaves it for a frame rate of 3 and a length of one second, to
  build concrete runs from.
\<close>

definition exampleGenerator :: BlueLineGenerator where
  "exampleGenerator =
     \<lparr> options = \<lparr> input = ''in.mp4'', output' = ''out.mp4'', ffmpegPath = ''ffmpeg'',
                   maxBuffer = 52428800, length' = 1, lineDirection = right,
                   frameCodec = mjpeg, lineColor = [0, 194, 203], fps = 3 \<rparr>,
       totalFrames = 3,
       frameImages = [],
       effectCanvas = newSize 0 0,
       outputCanvas = newSize 0 0,
       currentFrameNum = 0,
       cropRect = newRectangle 0 0 0 0,
       cropRectShrinkSize = newSize 0 0,
       strokeStyle = [],
       stdinErrorListener = False,
       trace = [] \<rparr>"

text \<open>The options object with nothing given, to build concrete calls from.\<close>

definition noOptions :: SuppliedOptions where
  "noOptions = \<lparr> given_input = None, given_output = None, given_ffmpegPath = None,
       given_maxBuffer = None, given_length = None, given_lineDirection = None,
       given_frameCodec = None, given_lineColor = None, given_fps = None \<rparr>"

section \<open>Properties of the colour formatting\<close>

lemma less16_cases:
  "(d::nat) < 16 \<Longrightarrow> d \<in> {0, 1, 2, 3, 4, 5, 6, 7, 8, 9, 10, 11, 12, 13, 14, 15}"
  by (simp only: insert_iff empty_iff) arith

lemma hexDigitValue_hexDigit: "d < 16 \<Longrightarrow> hexDigitValue (hexDigit d) = Some d"
  by (drule less16_cases) (auto simp: hexDigitValue_def hexDigit_def)

lemma hexDigit_not_hash: "d < 16 \<Longrightarrow> CHR ''#'' \<noteq> hexDigit d"
  by (drule less16_cases) (auto simp: hexDigit_def)

lemma natToString16_byte:
  "n < 256 \<Longrightarrow>
   natToString16 n = (if n < 16 then [hexDigit n] else [hexDigit (n div 16), hexDigit (n mod 16)])"
proof -
  assume n: "n < 256"
  show ?thesis
  proof (cases "n < 16")
    case True
    then show ?thesis by (simp add: natToString16.simps [of n])
  next
    case False
    from n have "n div 16 < 16" by simp
    then have "natToString16 (n div 16) = [hexDigit (n div 16)]"
      by (simp add: natToString16.simps [of "n div 16"])
    with False show ?thesis by (simp add: natToString16.simps [of n])
  qed
qed

lemma zeroPad_channel:
  assumes "0 \<le> c" and "c \<le> 255"
  shows "zeroPadNumber (toString16 c) 2 = [hexDigit (nat c div 16), hexDigit (nat c mod 16)]"
proof -
  from assms have n: "nat c < 256" by simp
  have neg: "\<not> c < 0" using assms by simp
  show ?thesis
  proof (cases "nat c < 16")
    case True
    then have "nat c div 16 = 0" by simp
    moreover have "hexDigit 0 = CHR ''0''" by (simp add: hexDigit_def)
    ultimately show ?thesis
      using True neg natToString16_byte [OF n]
      by (simp add: zeroPadNumber_def toString16_def)
  next
    case False
    then show ?thesis
      using neg natToString16_byte [OF n]
      by (simp add: zeroPadNumber_def toString16_def)
  qed
qed

lemma parseHex_pair:
  assumes "a < 16" and "b < 16"
  shows "parseHex [hexDigit a, hexDigit b] = Some (int (16 * a + b))"
  using assms by (simp add: parseHex_def hexDigitValue_hexDigit)

lemma parseHex_channel:
  assumes "0 \<le> c" and "c \<le> 255"
  shows "parseHex (zeroPadNumber (toString16 c) 2) = Some c"
proof -
  from assms have "nat c div 16 < 16" and "nat c mod 16 < 16" by simp_all
  then have "parseHex [hexDigit (nat c div 16), hexDigit (nat c mod 16)]
               = Some (int (16 * (nat c div 16) + nat c mod 16))"
    by (rule parseHex_pair)
  also have "16 * (nat c div 16) + nat c mod 16 = nat c" by simp
  finally show ?thesis using assms by (simp add: zeroPad_channel)
qed

text \<open>
  Claim C10. For channels in \<open>0..255\<close>, \<open>RgbToHexString\<close> returns exactly six
  hexadecimal characters and no pound sign; the string is the three channels' base-16
  representations, each padded with zeros to two digits, in the order red, green, blue;
  and reading the three two-character groups back in base 16 gives the channels again.
\<close>

theorem RgbToHexString_roundtrip:
  assumes "0 \<le> r" "r \<le> 255" "0 \<le> g" "g \<le> 255" "0 \<le> b" "b \<le> 255"
  shows "length (RgbToHexString r g b) = 6
       \<and> list_all isHexChar (RgbToHexString r g b)
       \<and> CHR ''#'' \<notin> set (RgbToHexString r g b)
       \<and> RgbToHexString r g b =
           zeroPadNumber (toString16 r) 2 @ zeroPadNumber (toString16 g) 2
             @ zeroPadNumber (toString16 b) 2
       \<and> length (zeroPadNumber (toString16 r) 2) = 2
       \<and> length (zeroPadNumber (toString16 g) 2) = 2
       \<and> length (zeroPadNumber (toString16 b) 2) = 2
       \<and> parseHex (take 2 (RgbToHexString r g b)) = Some r
       \<and> parseHex (take 2 (drop 2 (RgbToHexString r g b))) = Some g
       \<and> parseHex (drop 4 (RgbToHexString r g b)) = Some b"
proof -
  let ?d = "\<lambda>c. [hexDigit (nat c div 16), hexDigit (nat c mod 16)]"
  have pr: "zeroPadNumber (toString16 r) 2 = ?d r"
    and pg: "zeroPadNumber (toString16 g) 2 = ?d g"
    and pb: "zeroPadNumber (toString16 b) 2 = ?d b"
    using assms by (simp_all add: zeroPad_channel)
  have s: "RgbToHexString r g b = ?d r @ ?d g @ ?d b"
    by (simp add: RgbToHexString_def pr pg pb)
  have lt: "nat r div 16 < 16" "nat r mod 16 < 16" "nat g div 16 < 16" "nat g mod 16 < 16"
    "nat b div 16 < 16" "nat b mod 16 < 16"
    using assms by simp_all
  have hex: "list_all isHexChar (RgbToHexString r g b)"
    using lt by (simp add: s isHexChar_def hexDigitValue_hexDigit)
  have nohash: "CHR ''#'' \<notin> set (RgbToHexString r g b)"
    using lt by (simp add: s hexDigit_not_hash)
  have "parseHex (take 2 (RgbToHexString r g b)) = parseHex (zeroPadNumber (toString16 r) 2)"
    by (simp add: s pr)
  then have rr: "parseHex (take 2 (RgbToHexString r g b)) = Some r"
    using assms by (simp add: parseHex_channel)
  have "parseHex (take 2 (drop 2 (RgbToHexString r g b))) = parseHex (zeroPadNumber (toString16 g) 2)"
    by (simp add: s pg)
  then have gg: "parseHex (take 2 (drop 2 (RgbToHexString r g b))) = Some g"
    using assms by (simp add: parseHex_channel)
  have "parseHex (drop 4 (RgbToHexString r g b)) = parseHex (zeroPadNumber (toString16 b) 2)"
    by (simp add: s pb)
  then have bb: "parseHex (drop 4 (RgbToHexString r g b)) = Some b"
    using assms by (simp add: parseHex_channel)
  show ?thesis
    using hex nohash rr gg bb by (simp add: s pr pg pb RgbToHexString_def)
qed

theorem RgbToHexString_roundtrip_witness:
  "RgbToHexString 0 194 203 = ''00c2cb''
   \<and> (length (RgbToHexString 0 194 203) = 6
       \<and> list_all isHexChar (RgbToHexString 0 194 203)
       \<and> CHR ''#'' \<notin> set (RgbToHexString 0 194 203)
       \<and> RgbToHexString 0 194 203 =
           zeroPadNumber (toString16 0) 2 @ zeroPadNumber (toString16 194) 2
             @ zeroPadNumber (toString16 203) 2
       \<and> length (zeroPadNumber (toString16 0) 2) = 2
       \<and> length (zeroPadNumber (toString16 194) 2) = 2
       \<and> length (zeroPadNumber (toString16 203) 2) = 2
       \<and> parseHex (take 2 (RgbToHexString 0 194 203)) = Some 0
       \<and> parseHex (take 2 (drop 2 (RgbToHexString 0 194 203))) = Some 194
       \<and> parseHex (drop 4 (RgbToHexString 0 194 203)) = Some 203)"
proof (rule conjI)
  show "RgbToHexString 0 194 203 = ''00c2cb''"
    by (simp add: RgbToHexString_def zeroPadNumber_def toString16_def
        natToString16.simps [of 0] natToString16.simps [of 194] natToString16.simps [of 203]
        natToString16.simps [of 12] hexDigit_def)
next
  show "length (RgbToHexString 0 194 203) = 6
       \<and> list_all isHexChar (RgbToHexString 0 194 203)
       \<and> CHR ''#'' \<notin> set (RgbToHexString 0 194 203)
       \<and> RgbToHexString 0 194 203 =
           zeroPadNumber (toString16 0) 2 @ zeroPadNumber (toString16 194) 2
             @ zeroPadNumber (toString16 203) 2
       \<and> length (zeroPadNumber (toString16 0) 2) = 2
       \<and> length (zeroPadNumber (toString16 194) 2) = 2
       \<and> length (zeroPadNumber (toString16 203) 2) = 2
       \<and> parseHex (take 2 (RgbToHexString 0 194 203)) = Some 0
       \<and> parseHex (take 2 (drop 2 (RgbToHexString 0 194 203))) = Some 194
       \<and> parseHex (drop 4 (RgbToHexString 0 194 203)) = Some 203"
    by (rule RgbToHexString_roundtrip) simp_all
qed

section \<open>Properties of the crop rectangle and of the constructor\<close>

lemmas rect_accessors = getX_def setX_def getY_def setY_def getWidth_def setWidth_def
  getHeight_def setHeight_def

lemma rect_eqI:
  "getX a = getX b \<Longrightarrow> getY a = getY b \<Longrightarrow> getWidth a = getWidth b \<Longrightarrow> getHeight a = getHeight b
   \<Longrightarrow> (a :: Rectangle) = b"
  by (cases a, cases b) (auto simp: rect_accessors intro: Point.equality Size.equality)

text \<open>
  Claim C3. One advance of the crop rectangle, for every shrink size and rectangle:
  \<open>left\<close> takes the step's width off the width and changes nothing else;
  \<open>right\<close> takes it off the width and adds it to \<open>x\<close>; \<open>up\<close> takes the
  step's height off the height and changes nothing else; \<open>down\<close> takes it off the
  height and adds it to \<open>y\<close>. The four accessors are all a rectangle has
  (\<open>rect_eqI\<close>).
\<close>

theorem advance_transition:
  "getWidth (advance left s r) = getWidth r - sWidth s
   \<and> getHeight (advance left s r) = getHeight r
   \<and> getX (advance left s r) = getX r
   \<and> getY (advance left s r) = getY r
   \<and> getWidth (advance right s r) = getWidth r - sWidth s
   \<and> getX (advance right s r) = getX r + sWidth s
   \<and> getHeight (advance right s r) = getHeight r
   \<and> getY (advance right s r) = getY r
   \<and> getHeight (advance up s r) = getHeight r - sHeight s
   \<and> getWidth (advance up s r) = getWidth r
   \<and> getX (advance up s r) = getX r
   \<and> getY (advance up s r) = getY r
   \<and> getHeight (advance down s r) = getHeight r - sHeight s
   \<and> getY (advance down s r) = getY r + sHeight s
   \<and> getWidth (advance down s r) = getWidth r
   \<and> getX (advance down s r) = getX r"
  by (simp add: rect_accessors Let_def)

text \<open>
  Claim C8. With the input path absent or empty the constructor throws
  "No input specified."; with an input path but the output path absent or empty it
  throws "No output specified.". This holds for either default colour, and the command
  line's \<open>try\<close> block then ends with that exception and without any effect: no
  process has been started.
\<close>

theorem constructor_requires_paths:
  "(falsyString (given_input opts) \<longrightarrow>
      constructorWith c opts = Inl (Error ''No input specified.'')
      \<and> createAndGenerate existsSync opts = (Some (Error ''No input specified.''), []))
   \<and> (\<not> falsyString (given_input opts) \<and> falsyString (given_output opts) \<longrightarrow>
      constructorWith c opts = Inl (Error ''No output specified.'')
      \<and> createAndGenerate existsSync opts = (Some (Error ''No output specified.''), []))"
  by (simp add: constructorWith_def createAndGenerate_def constructor_def)

theorem constructor_requires_paths_witness:
  "constructor (noOptions\<lparr>given_output := Some ''out.mp4''\<rparr>) = Inl (Error ''No input specified.'')
   \<and> createAndGenerate (\<lambda>p. True) (noOptions\<lparr>given_input := Some []\<rparr>)
       = (Some (Error ''No input specified.''), [])
   \<and> constructor (noOptions\<lparr>given_input := Some ''in.mp4''\<rparr>) = Inl (Error ''No output specified.'')
   \<and> createAndGenerate (\<lambda>p. True) (noOptions\<lparr>given_input := Some ''in.mp4'', given_output := Some []\<rparr>)
       = (Some (Error ''No output specified.''), [])"
  using constructor_requires_paths [of "noOptions\<lparr>given_output := Some ''out.mp4''\<rparr>" DEFAULT_LINE_COLOR "\<lambda>p. True"]
    constructor_requires_paths [of "noOptions\<lparr>given_input := Some []\<rparr>" DEFAULT_LINE_COLOR "\<lambda>p. True"]
    constructor_requires_paths [of "noOptions\<lparr>given_input := Some ''in.mp4''\<rparr>" DEFAULT_LINE_COLOR "\<lambda>p. True"]
    constructor_requires_paths [of "noOptions\<lparr>given_input := Some ''in.mp4'', given_output := Some []\<rparr>" DEFAULT_LINE_COLOR "\<lambda>p. True"]
  by (simp add: noOptions_def falsyString_def constructor_def)

text \<open>
  Claim C9. With input and output present the constructor does not throw, and a numeric
  option that is absent or zero is replaced by its default: the length by 10, the frame
  rate by 25, the buffer size by 50 MiB. In the same way an absent or empty codec,
  direction or FFmpeg path is replaced by \<open>mjpeg\<close>, \<open>right\<close> and \<open>ffmpeg\<close>.
\<close>

theorem constructor_defaults:
  assumes "\<not> falsyString (given_input opts)" and "\<not> falsyString (given_output opts)"
  shows "\<exists>g. constructorWith c opts = Inr g
     \<and> (given_length opts = None \<or> given_length opts = Some 0 \<longrightarrow> length' (options g) = 10)
     \<and> (given_fps opts = None \<or> given_fps opts = Some 0 \<longrightarrow> fps (options g) = 25)
     \<and> (given_maxBuffer opts = None \<or> given_maxBuffer opts = Some 0
          \<longrightarrow> maxBuffer (options g) = 50 * 1024 * 1024)
     \<and> (given_frameCodec opts = None \<or> given_frameCodec opts = Some [] \<longrightarrow> frameCodec (options g) = mjpeg)
     \<and> (given_lineDirection opts = None \<or> given_lineDirection opts = Some []
          \<longrightarrow> lineDirection (options g) = right)
     \<and> (given_ffmpegPath opts = None \<or> given_ffmpegPath opts = Some []
          \<longrightarrow> ffmpegPath (options g) = ''ffmpeg'')"
  using assms
  by (auto simp: constructorWith_def fillOptions_def falsyNumber_def falsyString_def
      DEFAULT_LENGTH_def DEFAULT_FRAMERATE_def DEFAULT_MAX_BUFFER_def DEFAULT_FRAME_CODEC_def
      DEFAULT_LINE_DIRECTION_def)

theorem constructor_defaults_witness:
  "\<exists>g. constructor (noOptions\<lparr>given_input := Some ''in.mp4'', given_output := Some ''out.mp4'',
            given_length := Some 0, given_fps := Some 0, given_maxBuffer := Some 0,
            given_frameCodec := Some [], given_lineDirection := Some [], given_ffmpegPath := Some []\<rparr>) = Inr g
     \<and> length' (options g) = 10 \<and> fps (options g) = 25 \<and> maxBuffer (options g) = 52428800
     \<and> frameCodec (options g) = mjpeg \<and> lineDirection (options g) = right
     \<and> ffmpegPath (options g) = ''ffmpeg''"
  using constructor_defaults [of "noOptions\<lparr>given_input := Some ''in.mp4'', given_output := Some ''out.mp4'',
            given_length := Some 0, given_fps := Some 0, given_maxBuffer := Some 0,
            given_frameCodec := Some [], given_lineDirection := Some [], given_ffmpegPath := Some []\<rparr>"
       DEFAULT_LINE_COLOR]
  by (simp add: noOptions_def falsyString_def constructor_def)

section \<open>The default colour and the error paths\<close>

lemma default_line_color_filled:
  assumes "\<not> falsyString (given_input opts)" and "\<not> falsyString (given_output opts)"
    and "given_lineColor opts = None"
  shows "\<exists>g. constructor opts = Inr g \<and> lineColor (options g) = [0, 194, 203]"
  using assms
  by (simp add: constructor_def constructorWith_def fillOptions_def falsyArray_def
      DEFAULT_LINE_COLOR_def)

text \<open>
  Claim C7. With no line colour given, the constructor of the revision that draws the
  line fills in the channels 0, 194, 203 (\<open>default_line_color_filled\<close>). The
  constructor of the revision under \<open>src/blueline.ts\<close> fills in its own default,
  which is the empty array: there the claim fails, as this evaluation shows.
\<close>

theorem default_line_color_src_blueline_empty:
  "\<exists>g. constructor_src_blueline
          (noOptions\<lparr>given_input := Some ''in.mp4'', given_output := Some ''out.mp4''\<rparr>) = Inr g
      \<and> lineColor (options g) = []"
  by (simp add: constructor_src_blueline_def constructorWith_def fillOptions_def falsyArray_def
      falsyString_def noOptions_def DEFAULT_LINE_COLOR_src_blueline_def)

lemma handlerCalls_append: "handlerCalls (xs @ ys) = handlerCalls xs @ handlerCalls ys"
  by (induction xs rule: handlerCalls.induct) simp_all

lemma writes_append: "writes (xs @ ys) = writes xs @ writes ys"
  by (induction xs rule: writes.induct) simp_all

lemma OnEffectError_trace:
  "trace (OnEffectError (Some e) g) = trace g @ [StdinEnd, ErrorHandlerCall (Failure e)]"
  by (simp add: OnEffectError_def errorHandler_def emit_def)

text \<open>
  Claim C5. In the revision that draws the line an error of the encoder's standard
  input reaches \<open>OnEffectError\<close>, which closes the stream and then calls the error
  handler (\<open>OnEffectError_trace\<close>, \<open>stdin_error_reported\<close> below). In the
  revision under \<open>src/blueline.ts\<close> the callback of a failed write calls the error
  handler only: the stream is not closed on that path, as this evaluation shows.
\<close>

theorem OnEffectError_src_blueline_no_end:
  "trace (OnEffectError_src_blueline (Some e) g) = trace g @ [ErrorHandlerCall (Failure e)]"
  by (simp add: OnEffectError_src_blueline_def errorHandler_def emit_def)

lemma firstFrameSetup_keeps:
  "firstFrameSetup img g = Inr g1 \<Longrightarrow>
     trace g1 = trace g \<and> options g1 = options g \<and> totalFrames g1 = totalFrames g
     \<and> stdinErrorListener g1 = stdinErrorListener g
     \<and> frameImages g1 = frameImages g \<and> currentFrameNum g1 = currentFrameNum g"
  by (auto simp: firstFrameSetup_def Let_def split: if_splits)

lemma DoEffectSingleFrame_keeps:
  assumes "DoEffectSingleFrame loadImage fr g = Inr g'"
  shows "options g' = options g \<and> totalFrames g' = totalFrames g
     \<and> stdinErrorListener g' = stdinErrorListener g \<and> frameImages g' = frameImages g
     \<and> handlerCalls (trace g') = handlerCalls (trace g)"
proof (cases fr)
  case None
  with assms show ?thesis
    by (auto simp: DoEffectSingleFrame_def emit_def handlerCalls_append)
next
  case (Some f)
  with assms obtain img g1 where l: "loadImage f = Inr img"
    and s: "firstFrameSetup img g = Inr g1"
    by (auto simp: DoEffectSingleFrame_def split: sum.splits)
  from assms Some l s firstFrameSetup_keeps [OF s] show ?thesis
    by (auto simp: DoEffectSingleFrame_def Let_def emit_def handlerCalls_append)
qed

lemma GetNextFrame_keeps:
  "GetNextFrame g = (fr, g1) \<Longrightarrow>
     options g1 = options g \<and> totalFrames g1 = totalFrames g
     \<and> stdinErrorListener g1 = stdinErrorListener g \<and> frameImages g1 = frameImages g
     \<and> trace g1 = trace g"
  by (auto simp: GetNextFrame_def split: if_splits)

lemma runFrames_step_induct:
  assumes "\<And>g. (\<And>f g1 g2. GetNextFrame g = (Some f, g1) \<Longrightarrow>
              DoEffectSingleFrame loadImage (Some f) g1 = Inr g2 \<Longrightarrow> P g2) \<Longrightarrow> P g"
  shows "P g"
proof (induction "length (frameImages g) - currentFrameNum g" arbitrary: g rule: less_induct)
  case less
  show ?case
  proof (rule assms)
    fix f g1 g2
    assume n: "GetNextFrame g = (Some f, g1)"
      and d: "DoEffectSingleFrame loadImage (Some f) g1 = Inr g2"
    from n have "currentFrameNum g < length (frameImages g)"
      and "frameImages g1 = frameImages g" and "currentFrameNum g1 = currentFrameNum g + 1"
      by (auto simp: GetNextFrame_def split: if_splits)
    with DoEffectSingleFrame_frames [OF d]
    have "length (frameImages g2) - currentFrameNum g2 < length (frameImages g) - currentFrameNum g"
      by simp
    then show "P g2" by (rule less)
  qed
qed

lemma runFrames_cases:
  obtains (finished) g1 where "GetNextFrame g = (None, g1)"
      and "runFrames loadImage g = emit StdinEnd g1"
  | (rejected) f g1 e where "GetNextFrame g = (Some f, g1)"
      and "DoEffectSingleFrame loadImage (Some f) g1 = Inl e"
      and "runFrames loadImage g = emit (UnhandledRejection e) g1"
  | (next_frame) f g1 g2 where "GetNextFrame g = (Some f, g1)"
      and "DoEffectSingleFrame loadImage (Some f) g1 = Inr g2"
      and "runFrames loadImage g = runFrames loadImage g2"
proof -
  obtain fr g1 where n: "GetNextFrame g = (fr, g1)" by (cases "GetNextFrame g")
  show thesis
  proof (cases fr)
    case None
    with n show thesis
      by (intro finished [of g1]) (simp_all add: runFrames.simps [of loadImage g] DoEffectSingleFrame_def)
  next
    case (Some f)
    show thesis
    proof (cases "DoEffectSingleFrame loadImage (Some f) g1")
      case (Inl e)
      with n Some show thesis
        by (intro rejected [of f g1 e]) (simp_all add: runFrames.simps [of loadImage g])
    next
      case (Inr g2)
      with n Some show thesis
        by (intro next_frame [of f g1 g2]) (simp_all add: runFrames.simps [of loadImage g])
    qed
  qed
qed

lemma runFrames_keeps:
  "options (runFrames loadImage g) = options g
   \<and> totalFrames (runFrames loadImage g) = totalFrames g
   \<and> stdinErrorListener (runFrames loadImage g) = stdinErrorListener g
   \<and> frameImages (runFrames loadImage g) = frameImages g
   \<and> handlerCalls (trace (runFrames loadImage g)) = handlerCalls (trace g)"
proof (induction g rule: runFrames_step_induct [where loadImage = loadImage])
  case (1 g)
  show ?case
  proof (cases rule: runFrames_cases [where g = g and loadImage = loadImage])
    case (finished g1)
    with GetNextFrame_keeps [OF finished(1)] show ?thesis
      by (simp add: emit_def handlerCalls_append)
  next
    case (rejected f g1 e)
    with GetNextFrame_keeps [OF rejected(1)] show ?thesis
      by (simp add: emit_def handlerCalls_append)
  next
    case (next_frame f g1 g2)
    from 1 [OF next_frame(1,2)] next_frame(3) GetNextFrame_keeps [OF next_frame(1)]
      DoEffectSingleFrame_keeps [OF next_frame(2)]
    show ?thesis by simp
  qed
qed

lemma stdin_error_reported:
  "\<exists>g'. stdinErrorEvent e (DoEffect loadImage g) = Inr g'
     \<and> trace g' = trace (DoEffect loadImage g) @ [StdinEnd, ErrorHandlerCall (Failure e)]"
proof -
  have "stdinErrorListener (DoEffect loadImage g)"
    by (simp add: DoEffect_def beginEffect_def Let_def runFrames_keeps)
  then show ?thesis
    by (simp add: stdinErrorEvent_def OnEffectError_trace)
qed

section \<open>Too few frames\<close>

lemma firstFrameSetup_succeeds:
  "3 \<le> length (lineColor (options g)) \<Longrightarrow> \<exists>g1. firstFrameSetup img g = Inr g1"
  by (simp add: firstFrameSetup_def Let_def)

lemma DoEffectSingleFrame_writes:
  assumes "DoEffectSingleFrame loadImage (Some f) g = Inr g'"
  shows "writes (trace g') = writes (trace g) @ [currentFrameNum g]"
proof -
  from assms obtain img g1 where l: "loadImage f = Inr img"
    and s: "firstFrameSetup img g = Inr g1"
    by (auto simp: DoEffectSingleFrame_def split: sum.splits)
  from assms l s firstFrameSetup_keeps [OF s] show ?thesis
    by (auto simp: DoEffectSingleFrame_def Let_def emit_def writes_append)
qed

lemma DoEffectSingleFrame_succeeds:
  assumes "loadImage f = Inr img" and "3 \<le> length (lineColor (options g))"
  shows "\<exists>g'. DoEffectSingleFrame loadImage (Some f) g = Inr g'"
  using assms firstFrameSetup_succeeds [OF assms(2), of img]
  by (auto simp: DoEffectSingleFrame_def Let_def)

lemma runFrames_writes:
  assumes "\<forall>f \<in> set (frameImages g). \<exists>img. loadImage f = Inr img"
    and "3 \<le> length (lineColor (options g))"
  shows "writes (trace (runFrames loadImage g))
           = writes (trace g) @ [currentFrameNum g + 1 ..< length (frameImages g) + 1]
       \<and> last (trace (runFrames loadImage g)) = StdinEnd"
  using assms
proof (induction g rule: runFrames_step_induct [where loadImage = loadImage])
  case (1 g)
  show ?case
  proof (cases rule: runFrames_cases [where g = g and loadImage = loadImage])
    case (finished g1)
    then show ?thesis
      by (auto simp: GetNextFrame_def emit_def writes_append split: if_splits)
  next
    case (rejected f g1 e)
    from rejected(1) have "f \<in> set (frameImages g)" and "options g1 = options g"
      by (auto simp: GetNextFrame_def split: if_splits)
    with "1.prems" obtain img where l: "loadImage f = Inr img"
      and c: "3 \<le> length (lineColor (options g1))"
      by auto
    from DoEffectSingleFrame_succeeds [of loadImage f img g1, OF l c] rejected(2)
    show ?thesis by simp
  next
    case (next_frame f g1 g2)
    note k1 = GetNextFrame_keeps [OF next_frame(1)]
    note k2 = DoEffectSingleFrame_keeps [OF next_frame(2)]
    from next_frame(1) have lt: "currentFrameNum g < length (frameImages g)"
      and c1: "currentFrameNum g1 = currentFrameNum g + 1"
      by (auto simp: GetNextFrame_def split: if_splits)
    from DoEffectSingleFrame_frames [OF next_frame(2)] c1
    have c2: "currentFrameNum g2 = currentFrameNum g + 1" by simp
    have "writes (trace (runFrames loadImage g2))
           = writes (trace g2) @ [currentFrameNum g2 + 1 ..< length (frameImages g2) + 1]
       \<and> last (trace (runFrames loadImage g2)) = StdinEnd"
      using "1.IH" [OF next_frame(1,2)] "1.prems" k1 k2 by simp
    moreover have "writes (trace g2) = writes (trace g) @ [currentFrameNum g + 1]"
      using DoEffectSingleFrame_writes [OF next_frame(2)] k1 c1 by simp
    moreover have "[currentFrameNum g + 1 ..< length (frameImages g) + 1]
        = (currentFrameNum g + 1) # [currentFrameNum g + 2 ..< length (frameImages g) + 1]"
      using lt by (simp add: upt_conv_Cons)
    ultimately show ?thesis
      using next_frame(3) k1 k2 c2 by simp
  qed
qed

text \<open>
  Claim C6. Without an error of the decoder, \<open>OnFfmpegFramesOutputFinished\<close> returns
  normally and keeps the extracted frames. When there are fewer of them than
  \<open>totalFrames\<close>, the error handler is called exactly once more, with the message that
  names the expected and the actual number and the option \<open>-l\<close>; otherwise it is not
  called. Either way the effect is started on the frames found: when every frame can be
  decoded and the colour has its three channels, each of them is written to the encoder
  in turn and the stream is closed at the end. (The error handler is taken to return;
  the command line's own handler ends the process.)
\<close>

theorem too_few_frames_reported:
  "\<exists>g'. OnFfmpegFramesOutputFinished loadImage None stdout g = Inr g'
     \<and> frameImages g' = extractFrames (frameCodec (options g)) stdout
     \<and> handlerCalls (trace g') = handlerCalls (trace g) @
          (if int (length (extractFrames (frameCodec (options g)) stdout)) < totalFrames g
           then [Message
             (''Not enough frames were exported to fulfill the length of the effect. Expected ''
              @ toString10 (totalFrames g) @ '' but got ''
              @ toString10 (int (length (extractFrames (frameCodec (options g)) stdout)))
              @ [CHR ''.'', CHR 0x0A] @ ''Specify effect length with the -l argument.'')]
           else [])
     \<and> ((\<forall>f \<in> set (extractFrames (frameCodec (options g)) stdout). \<exists>img. loadImage f = Inr img)
          \<and> 3 \<le> length (lineColor (options g)) \<longrightarrow>
          writes (trace g') = writes (trace g)
             @ [currentFrameNum g + 1 ..< length (extractFrames (frameCodec (options g)) stdout) + 1]
          \<and> last (trace g') = StdinEnd)"
proof -
  define frames where "frames = extractFrames (frameCodec (options g)) stdout"
  define g1 where "g1 = g\<lparr>frameImages := frames\<rparr>"
  define g2 where "g2 = (if int (length frames) < totalFrames g
      then errorHandler (Message (notEnoughFramesMessage (totalFrames g) (length frames))) g1
      else g1)"
  have res: "OnFfmpegFramesOutputFinished loadImage None stdout g = Inr (DoEffect loadImage g2)"
    by (simp add: OnFfmpegFramesOutputFinished_def Let_def g2_def g1_def frames_def)
  have g2_fields: "frameImages g2 = frames" "options g2 = options g"
    "currentFrameNum g2 = currentFrameNum g"
    by (simp_all add: g2_def g1_def errorHandler_def emit_def)
  have g2_calls: "handlerCalls (trace g2) = handlerCalls (trace g) @
      (if int (length frames) < totalFrames g
       then [Message (notEnoughFramesMessage (totalFrames g) (length frames))] else [])"
    by (simp add: g2_def g1_def errorHandler_def emit_def handlerCalls_append)
  have g2_writes: "writes (trace g2) = writes (trace g)"
    by (simp add: g2_def g1_def errorHandler_def emit_def writes_append)
  define g3 where "g3 = beginEffect g2"
  have de: "DoEffect loadImage g2 = runFrames loadImage g3"
    by (simp add: DoEffect_def g3_def)
  have g3_fields: "frameImages g3 = frames" "options g3 = options g"
    "currentFrameNum g3 = currentFrameNum g"
    "handlerCalls (trace g3) = handlerCalls (trace g2)" "writes (trace g3) = writes (trace g2)"
    by (simp_all add: g3_def beginEffect_def Let_def emit_def g2_fields handlerCalls_append
        writes_append)
  have a: "frameImages (DoEffect loadImage g2) = frames"
    by (simp add: de runFrames_keeps g3_fields)
  have b: "handlerCalls (trace (DoEffect loadImage g2)) = handlerCalls (trace g2)"
    by (simp add: de runFrames_keeps g3_fields)
  have c: "writes (trace (DoEffect loadImage g2)) = writes (trace g)
             @ [currentFrameNum g + 1 ..< length frames + 1]
          \<and> last (trace (DoEffect loadImage g2)) = StdinEnd"
    if "\<forall>f \<in> set frames. \<exists>img. loadImage f = Inr img" and "3 \<le> length (lineColor (options g))"
    using runFrames_writes [of g3 loadImage] that
    by (simp add: de g3_fields g2_writes)
  show ?thesis
    using res a b c g2_calls
    by (simp add: frames_def [symmetric] notEnoughFramesMessage_def)
qed


lemma extractFrames_two_images:
  "extractFrames mjpeg [0xff, 0xd8, 0xff, 1, 2, 0xff, 0xd8, 0xff, 3]
     = [[0xff, 0xd8, 0xff, 1, 2], [0xff, 0xd8, 0xff, 3]]"
  by code_simp

lemma notEnoughFramesMessage_3_2:
  "notEnoughFramesMessage 3 2 =
     ''Not enough frames were exported to fulfill the length of the effect. Expected 3 but got 2.''
     @ [CHR 0x0A] @ ''Specify effect length with the -l argument.''"
  by (simp add: notEnoughFramesMessage_def toString10_def natToString10.simps [of 3]
      natToString10.simps [of 2] hexDigit_def)

theorem too_few_frames_reported_witness:
  "\<exists>g'. OnFfmpegFramesOutputFinished (\<lambda>f. Inr (newSize 4 2)) None
           [0xff, 0xd8, 0xff, 1, 2, 0xff, 0xd8, 0xff, 3] exampleGenerator = Inr g'
     \<and> frameImages g' = [[0xff, 0xd8, 0xff, 1, 2], [0xff, 0xd8, 0xff, 3]]
     \<and> handlerCalls (trace g') =
          [Message (''Not enough frames were exported to fulfill the length of the effect. Expected 3 but got 2.''
             @ [CHR 0x0A] @ ''Specify effect length with the -l argument.'')]
     \<and> writes (trace g') = [1, 2]
     \<and> last (trace g') = StdinEnd"
proof -
  have o: "frameCodec (options exampleGenerator) = mjpeg" "totalFrames exampleGenerator = 3"
    "trace exampleGenerator = []" "currentFrameNum exampleGenerator = 0"
    "lineColor (options exampleGenerator) = [0, 194, 203]"
    by (simp_all add: exampleGenerator_def)
  have t: "toString10 3 = ''3''" "toString10 2 = ''2''"
    by (simp_all add: toString10_def natToString10.simps [of 3] natToString10.simps [of 2]
        hexDigit_def)
  from too_few_frames_reported [of "\<lambda>f. Inr (newSize 4 2)"
      "[0xff, 0xd8, 0xff, 1, 2, 0xff, 0xd8, 0xff, 3]" exampleGenerator]
  show ?thesis
    by (simp add: o extractFrames_two_images t numeral_2_eq_2)
qed

section \<open>The frame count as a double product\<close>

text \<open>
  Powers of two, the exponent search and the rounding; then what the product gives: a
  power of two in the doubles' range is kept, a product below \<open>2 ^ -1075\<close> is
  rounded to zero, a product above that and below \<open>2 ^ 1024 - 2 ^ 970\<close> is a double
  above zero, and a power of two from \<open>2 ^ 1024\<close> on is \<open>Infinity\<close>.
\<close>

lemma pow2_pos: "0 < pow2 e"
  by (simp add: pow2_def)

lemma pow2_Suc: "pow2 (e + 1) = 2 * pow2 e"
proof (cases "0 \<le> e")
  case True
  then show ?thesis by (simp add: pow2_def nat_add_distrib)
next
  case False
  then have "nat (- e) = Suc (nat (- (e + 1)))" by simp
  with False show ?thesis by (simp add: pow2_def)
qed

lemma pow2_mono_step: "pow2 e \<le> pow2 (e + 1)"
  using pow2_pos [of e] by (simp add: pow2_Suc)

lemma pow2_mono: "a \<le> b \<Longrightarrow> pow2 a \<le> pow2 b"
proof (induction "nat (b - a)" arbitrary: b)
  case 0
  then show ?case by simp
next
  case (Suc n)
  then have "n = nat ((b - 1) - a)" and "a \<le> b - 1" by simp_all
  from Suc.hyps(1) [OF this] have "pow2 a \<le> pow2 (b - 1)" .
  also have "pow2 (b - 1) \<le> pow2 b" using pow2_mono_step [of "b - 1"] by simp
  finally show ?case .
qed

lemma expSearch_climb:
  "e \<le> k \<Longrightarrow> nat (k - e) \<le> n \<Longrightarrow> pow2 k \<le> x \<Longrightarrow> x < pow2 (k + 1)
     \<Longrightarrow> expSearch n e x = k"
proof (induction n arbitrary: e)
  case 0
  then show ?case by simp
next
  case (Suc n)
  show ?case
  proof (cases "e = k")
    case True
    with Suc.prems show ?thesis by simp
  next
    case False
    with Suc.prems have lt: "e + 1 \<le> k" by simp
    from pow2_mono [OF lt] Suc.prems(3) have "pow2 (e + 1) \<le> x" by simp
    moreover from lt Suc.prems(2) have "nat (k - (e + 1)) \<le> n" by simp
    ultimately show ?thesis using Suc.IH [OF lt _ Suc.prems(3,4)] by simp
  qed
qed

lemma exponentOf_eq:
  assumes "- 1022 \<le> k" and "k \<le> 1023" and "pow2 k \<le> \<bar>x\<bar>" and "\<bar>x\<bar> < pow2 (k + 1)"
  shows "exponentOf x = k"
  unfolding exponentOf_def using assms by (intro expSearch_climb) simp_all

lemma expSearch_stay: "x < pow2 (e + 1) \<Longrightarrow> expSearch n e x = e"
  by (cases n) simp_all

lemma exponentOf_subnormal:
  assumes "\<bar>x\<bar> < pow2 (- 1021)"
  shows "exponentOf x = - 1022"
  unfolding exponentOf_def using assms by (intro expSearch_stay) simp

lemma pow2_powr: "pow2 e = 2 powr (real_of_int e)"
proof (cases "0 \<le> e")
  case True
  then have "real_of_int e = real (nat e)" by simp
  then show ?thesis using True by (simp only: pow2_def powr_realpow) simp
next
  case False
  then have e: "real_of_int e = - real (nat (- e))" by simp
  have "2 powr (real_of_int e) = 1 / 2 powr (real (nat (- e)))"
    unfolding e by (simp add: powr_minus_divide)
  also have "\<dots> = 1 / 2 ^ nat (- e)" by (simp add: powr_realpow)
  finally show ?thesis using False by (simp add: pow2_def)
qed

lemma pow2_add: "pow2 (a + b) = pow2 a * pow2 b"
  by (simp add: pow2_powr powr_add)

lemma pow2_diff: "pow2 a / pow2 b = pow2 (a - b)"
  by (simp add: pow2_powr powr_diff)

lemma pow2_less: "a < b \<Longrightarrow> pow2 a < pow2 b"
  by (simp add: pow2_powr)

lemma pow2_52: "pow2 52 = 4503599627370496"
  by (simp add: pow2_def)

lemma roundHalfEven_int: "roundHalfEven (real_of_int m) = m"
  by (simp add: roundHalfEven_def Let_def)

lemma roundHalfEven_small:
  assumes "0 \<le> y" and "y < 1 / 2"
  shows "roundHalfEven y = 0"
proof -
  from assms have "\<lfloor>y\<rfloor> = 0" by (simp add: floor_eq_iff)
  with assms show ?thesis by (simp add: roundHalfEven_def Let_def)
qed

lemma nearestDouble_pow2:
  assumes "- 1022 \<le> k" and "k \<le> 1023"
  shows "nearestDouble (pow2 k) = Finite (pow2 k)"
proof -
  have p: "0 < pow2 k" by (rule pow2_pos)
  have e: "exponentOf (pow2 k) = k"
    using assms p pow2_less [of k "k + 1"] by (intro exponentOf_eq) simp_all
  have "pow2 k / pow2 (k - 52) = real_of_int 4503599627370496"
    by (simp add: pow2_diff pow2_52)
  then have m: "roundHalfEven (pow2 k / pow2 (k - 52)) = 4503599627370496"
    by (simp only: roundHalfEven_int)
  have "real_of_int 4503599627370496 * pow2 (k - 52) = pow2 52 * pow2 (k - 52)"
    by (simp add: pow2_52)
  also have "\<dots> = pow2 k" by (simp add: pow2_add [symmetric])
  finally have r: "real_of_int 4503599627370496 * pow2 (k - 52) = pow2 k" .
  have "pow2 k < pow2 1024" using assms by (intro pow2_less) simp
  with p have "\<not> pow2 1024 \<le> \<bar>pow2 k\<bar>" by simp
  then show ?thesis
    by (simp only: nearestDouble_def Let_def e m r if_False)
qed

lemma nearestDouble_underflow:
  assumes "0 \<le> x" and "x < pow2 (- 1075)"
  shows "nearestDouble x = Finite 0"
proof -
  have "pow2 (- 1075) < pow2 (- 1021)" by (intro pow2_less) simp
  with assms have e: "exponentOf x = - 1022" by (intro exponentOf_subnormal) simp
  have q: "0 < pow2 (- 1074)" by (rule pow2_pos)
  have "pow2 (- 1075) / pow2 (- 1074) = 1 / 2"
    by (simp add: pow2_diff) (simp add: pow2_def)
  moreover from assms q have "x / pow2 (- 1074) < pow2 (- 1075) / pow2 (- 1074)"
    by (simp add: divide_strict_right_mono)
  ultimately have "x / pow2 (- 1074) < 1 / 2" by simp
  moreover from assms q have "0 \<le> x / pow2 (- 1074)" by simp
  ultimately have m: "roundHalfEven (x / pow2 (- 1074)) = 0" by (intro roundHalfEven_small)
  have "\<not> pow2 1024 \<le> \<bar>0 :: real\<bar>" using pow2_pos [of 1024] by simp
  then show ?thesis
    by (simp add: nearestDouble_def Let_def e m)
qed

lemma totalFramesOf_underflow:
  "totalFramesOf (pow2 (- 600)) (pow2 (- 600)) = Finite 0"
proof -
  have "pow2 (- 600) * pow2 (- 600) = pow2 (- 1200)" by (simp add: pow2_add [symmetric])
  moreover have "pow2 (- 1200) < pow2 (- 1075)" by (intro pow2_less) simp
  moreover have "0 \<le> pow2 (- 1200)" using pow2_pos [of "- 1200"] by simp
  ultimately have "nearestDouble (pow2 (- 600) * pow2 (- 600)) = Finite 0"
    by (simp add: nearestDouble_underflow)
  then show ?thesis by (simp add: totalFramesOf_def timesDouble_def)
qed

lemma timesDouble_3_1: "timesDouble 3 1 = Finite 3"
proof -
  have e: "exponentOf 3 = 1"
    by (intro exponentOf_eq) (simp_all add: pow2_def)
  have m: "roundHalfEven 6755399441055744 = 6755399441055744"
    using roundHalfEven_int [of 6755399441055744] by simp
  show ?thesis
    by (simp add: timesDouble_def nearestDouble_def Let_def e m pow2_def)
qed

lemma expSearch_props:
  "e \<le> expSearch n e x \<and> expSearch n e x \<le> e + int n
   \<and> (expSearch n e x = e \<or> pow2 (expSearch n e x) \<le> x)
   \<and> (expSearch n e x = e + int n \<or> x < pow2 (expSearch n e x + 1))"
proof (induction n arbitrary: e)
  case 0
  then show ?case by simp
next
  case (Suc n)
  show ?case
  proof (cases "pow2 (e + 1) \<le> x")
    case True
    from Suc [of "e + 1"] True show ?thesis by auto
  next
    case False
    then show ?thesis by simp
  qed
qed

lemma exponentOf_props:
  "- 1022 \<le> exponentOf x" "exponentOf x \<le> 1023"
  "exponentOf x = - 1022 \<or> pow2 (exponentOf x) \<le> \<bar>x\<bar>"
  "exponentOf x = 1023 \<or> \<bar>x\<bar> < pow2 (exponentOf x + 1)"
  using expSearch_props [of "- 1022" 2045 "\<bar>x\<bar>"] by (simp_all add: exponentOf_def)

lemma roundHalfEven_bounds:
  "y - 1 / 2 \<le> real_of_int (roundHalfEven y)" "real_of_int (roundHalfEven y) \<le> y + 1 / 2"
proof -
  define f where "f = \<lfloor>y\<rfloor>"
  define d where "d = y - real_of_int f"
  have a: "real_of_int f \<le> y" "y < real_of_int f + 1" unfolding f_def by linarith+
  have v: "roundHalfEven y = (if d < 1 / 2 then f else if 1 / 2 < d then f + 1
      else if even f then f else f + 1)"
    by (simp add: roundHalfEven_def Let_def f_def d_def)
  consider (lo) "d < 1 / 2" | (hi) "1 / 2 < d" | (mid) "d = 1 / 2" by linarith
  then have "y - 1 / 2 \<le> real_of_int (roundHalfEven y)
      \<and> real_of_int (roundHalfEven y) \<le> y + 1 / 2"
  proof cases
    case lo
    then have "roundHalfEven y = f" by (simp add: v)
    with a lo show ?thesis by (simp add: d_def)
  next
    case hi
    then have "roundHalfEven y = f + 1" by (simp add: v)
    with a hi show ?thesis by (simp add: d_def)
  next
    case mid
    then have "roundHalfEven y = f \<or> roundHalfEven y = f + 1" by (simp add: v)
    with a mid show ?thesis by (auto simp: d_def)
  qed
  then show "y - 1 / 2 \<le> real_of_int (roundHalfEven y)"
    and "real_of_int (roundHalfEven y) \<le> y + 1 / 2" by simp_all
qed

lemma nearestDouble_positive_finite:
  assumes lo: "pow2 (- 1075) < x" and hi: "x < pow2 1024 - pow2 970"
  shows "\<exists>p. nearestDouble x = Finite p \<and> 0 < p"
proof -
  define e where "e = exponentOf x"
  define q where "q = pow2 (e - 52)"
  define y where "y = x / q"
  define m where "m = roundHalfEven y"
  have x0: "0 < x" using lo pow2_pos [of "- 1075"] by simp
  have q0: "0 < q" by (simp add: q_def pow2_pos)
  note ep = exponentOf_props [of x, folded e_def]
  have half: "pow2 (- 1) = 1 / 2" by (simp add: pow2_def)
  have ylow: "1 / 2 < y"
  proof -
    from ep(3) show ?thesis
    proof
      assume "e = - 1022"
      then have "q = pow2 (- 1074)" by (simp add: q_def)
      then have "pow2 (- 1075) / q = 1 / 2" by (simp add: pow2_diff half)
      moreover have "pow2 (- 1075) / q < x / q" using lo q0 by (simp add: divide_strict_right_mono)
      ultimately show ?thesis by (simp add: y_def)
    next
      assume "pow2 e \<le> \<bar>x\<bar>"
      with x0 have "pow2 e / q \<le> x / q" using q0 by (simp add: divide_right_mono)
      moreover have "pow2 e / q = pow2 52" by (simp add: q_def pow2_diff)
      ultimately have "pow2 52 \<le> y" by (simp add: y_def)
      then show ?thesis unfolding pow2_52 by linarith
    qed
  qed
  have "0 < real_of_int m" using roundHalfEven_bounds(1) [of y] ylow by (simp add: m_def)
  then have m1: "0 < m" by simp
  have rpos: "0 < real_of_int m * q" using m1 q0 by simp
  have rfin: "real_of_int m * q < pow2 1024"
  proof (cases "e = 1023")
    case True
    then have q: "q = pow2 971" by (simp add: q_def)
    have "(pow2 1024 - pow2 970) / pow2 971 = pow2 53 - 1 / 2"
      by (simp add: diff_divide_distrib pow2_diff half)
    moreover have "x / pow2 971 < (pow2 1024 - pow2 970) / pow2 971"
      using hi pow2_pos [of 971] by (simp add: divide_strict_right_mono)
    ultimately have "y < pow2 53 - 1 / 2" by (simp add: y_def q)
    with roundHalfEven_bounds(2) [of y] have "real_of_int m < pow2 53" by (simp add: m_def)
    moreover have p53: "pow2 53 = real_of_int 9007199254740992" by (simp add: pow2_def)
    ultimately have "m \<le> 9007199254740991" by simp
    then have "real_of_int m \<le> pow2 53 - 1" by (simp add: p53)
    then have "real_of_int m * q \<le> (pow2 53 - 1) * q" using q0 by (simp add: mult_right_mono)
    also have "\<dots> = pow2 1024 - pow2 971"
      by (simp add: q left_diff_distrib pow2_add [symmetric])
    also have "\<dots> < pow2 1024" using pow2_pos [of 971] by simp
    finally show ?thesis .
  next
    case False
    with ep(4) x0 have "x < pow2 (e + 1)" by simp
    then have "x / q < pow2 (e + 1) / q" using q0 by (simp add: divide_strict_right_mono)
    moreover have "pow2 (e + 1) / q = pow2 53" by (simp add: q_def pow2_diff)
    ultimately have "y < pow2 53" by (simp add: y_def)
    with roundHalfEven_bounds(2) [of y] have "real_of_int m < pow2 53 + 1 / 2" by (simp add: m_def)
    moreover have p53: "pow2 53 = real_of_int 9007199254740992" by (simp add: pow2_def)
    ultimately have "m \<le> 9007199254740992" by simp
    then have "real_of_int m \<le> pow2 53" by (simp add: p53)
    then have "real_of_int m * q \<le> pow2 53 * q" using q0 by (simp add: mult_right_mono)
    also have "\<dots> = pow2 (e + 1)" by (simp add: q_def pow2_add [symmetric] add.commute)
    also have "\<dots> < pow2 1024" using ep(2) False by (intro pow2_less) simp
    finally show ?thesis .
  qed
  have "nearestDouble x = Finite (real_of_int m * q)"
    using rpos rfin
    by (simp add: nearestDouble_def Let_def e_def [symmetric] q_def [symmetric]
        y_def [symmetric] m_def [symmetric])
  with rpos show ?thesis by blast
qed

lemma nearestDouble_below:
  assumes lo: "pow2 (- 1075) < x" and hi: "x < pow2 (k + 1)"
    and k: "- 1022 \<le> k" "k \<le> 1022"
  shows "\<exists>p. nearestDouble x = Finite p \<and> 0 < p \<and> p \<le> pow2 (k + 1)"
proof -
  define e where "e = exponentOf x"
  define q where "q = pow2 (e - 52)"
  define y where "y = x / q"
  define m where "m = roundHalfEven y"
  have x0: "0 < x" using lo pow2_pos [of "- 1075"] by simp
  have q0: "0 < q" by (simp add: q_def pow2_pos)
  note ep = exponentOf_props [of x, folded e_def]
  have "pow2 (k + 1) \<le> pow2 1023" using k by (intro pow2_mono) simp
  moreover have "pow2 970 < pow2 1023" by (intro pow2_less) simp
  moreover have "pow2 1024 = 2 * pow2 1023" using pow2_Suc [of 1023] by simp
  ultimately have "x < pow2 1024 - pow2 970" using hi by simp
  from nearestDouble_positive_finite [OF lo this] obtain p where
    p: "nearestDouble x = Finite p" and p0: "0 < p" by blast
  from p have pm: "p = real_of_int m * q"
    by (simp add: nearestDouble_def Let_def e_def [symmetric] q_def [symmetric]
        y_def [symmetric] m_def [symmetric] split: if_splits)
  have ek: "e \<le> k"
  proof (rule ccontr)
    assume "\<not> e \<le> k"
    then have "k + 1 \<le> e" by simp
    then have "pow2 (k + 1) \<le> pow2 e" by (rule pow2_mono)
    moreover from \<open>\<not> e \<le> k\<close> k ep(3) have "pow2 e \<le> \<bar>x\<bar>" by auto
    ultimately show False using hi x0 by simp
  qed
  with k ep(4) x0 have "x < pow2 (e + 1)" by auto
  then have "x / q < pow2 (e + 1) / q" using q0 by (simp add: divide_strict_right_mono)
  moreover have "pow2 (e + 1) / q = pow2 53" by (simp add: q_def pow2_diff)
  ultimately have "y < pow2 53" by (simp add: y_def)
  with roundHalfEven_bounds(2) [of y] have "real_of_int m < pow2 53 + 1 / 2" by (simp add: m_def)
  moreover have p53: "pow2 53 = real_of_int 9007199254740992" by (simp add: pow2_def)
  ultimately have "m \<le> 9007199254740992" by simp
  then have "real_of_int m \<le> pow2 53" by (simp add: p53)
  then have "real_of_int m * q \<le> pow2 53 * q" using q0 by (simp add: mult_right_mono)
  also have "\<dots> = pow2 (e + 1)" by (simp add: q_def pow2_add [symmetric] add.commute)
  also have "\<dots> \<le> pow2 (k + 1)" using ek by (intro pow2_mono) simp
  finally have "p \<le> pow2 (k + 1)" by (simp add: pm)
  with p p0 show ?thesis by blast
qed

lemma totalFramesOf_in_range:
  assumes lo: "pow2 (- 1075) < a * b" and hi: "a * b \<le> pow2 53"
  shows "\<exists>T. totalFramesOf a b = Finite T \<and> 1 \<le> T \<and> T \<le> 9007199254740992"
proof -
  have p53: "pow2 53 = real_of_int 9007199254740992" by (simp add: pow2_def)
  have "\<exists>p. nearestDouble (a * b) = Finite p \<and> 0 < p \<and> p \<le> pow2 53"
  proof (cases "a * b = pow2 53")
    case True
    with nearestDouble_pow2 [of 53] pow2_pos [of 53] show ?thesis by simp
  next
    case False
    with hi have "a * b < pow2 (52 + 1)" by simp
    from nearestDouble_below [OF lo this] show ?thesis by simp
  qed
  then obtain p where p: "nearestDouble (a * b) = Finite p" and p0: "0 < p"
    and pu: "p \<le> pow2 53" by blast
  from p0 have "0 < \<lceil>p\<rceil>" by (simp add: ceiling_less_iff)
  moreover from pu have "\<lceil>p\<rceil> \<le> 9007199254740992"
    unfolding p53 by (simp only: ceiling_le_iff)
  ultimately show ?thesis using p by (simp add: totalFramesOf_def timesDouble_def)
qed

lemma totalFramesOf_rounds_up:
  "nearestDouble (11 / 10) = Finite (2476979795053773 / 2251799813685248)
   \<and> totalFramesOf (2476979795053773 / 2251799813685248) 50 = Finite 56"
proof -
  have e0: "exponentOf (11 / 10) = 0"
    by (intro exponentOf_eq) (simp_all add: pow2_def)
  have f0: "\<lfloor>(24769797950537728 :: real) / 5\<rfloor> = 4953959590107545"
    by (simp add: floor_eq_iff)
  have m0: "roundHalfEven (24769797950537728 / 5) = 4953959590107546"
    by (simp add: roundHalfEven_def Let_def f0)
  have a: "nearestDouble (11 / 10) = Finite (2476979795053773 / 2251799813685248)"
    by (simp add: nearestDouble_def Let_def e0 pow2_def m0)
  have e: "exponentOf (61924494876344325 / 1125899906842624) = 5"
    by (intro exponentOf_eq) (simp_all add: pow2_def)
  have f: "\<lfloor>(61924494876344325 :: real) / 8\<rfloor> = 7740561859543040"
    by (simp add: floor_eq_iff)
  have m: "roundHalfEven (61924494876344325 / 8) = 7740561859543041"
    by (simp add: roundHalfEven_def Let_def f)
  have "timesDouble (2476979795053773 / 2251799813685248) 50
      = Finite (7740561859543041 / 140737488355328)"
    by (simp add: timesDouble_def nearestDouble_def Let_def e pow2_def m)
  moreover have "\<lceil>(7740561859543041 :: real) / 140737488355328\<rceil> = 56"
    by (simp add: ceiling_eq_iff)
  ultimately show ?thesis using a by (simp add: totalFramesOf_def)
qed

lemma expSearch_top: "pow2 (e + int n) \<le> x \<Longrightarrow> expSearch n e x = e + int n"
proof (induction n arbitrary: e)
  case 0
  then show ?case by simp
next
  case (Suc n)
  have "pow2 (e + 1) \<le> pow2 (e + int (Suc n))" by (intro pow2_mono) simp
  with Suc.prems have "pow2 (e + 1) \<le> x" by simp
  moreover from Suc.prems have "pow2 (e + 1 + int n) \<le> x" by (simp add: add.assoc)
  ultimately show ?case using Suc.IH [of "e + 1"] by simp
qed

lemma nearestDouble_overflow:
  assumes "1024 \<le> k"
  shows "nearestDouble (pow2 k) = PlusInfinity"
proof -
  have p: "0 < pow2 k" by (rule pow2_pos)
  have "pow2 (- 1022 + int 2045) \<le> pow2 k" using assms by (intro pow2_mono) simp
  with p have "expSearch 2045 (- 1022) \<bar>pow2 k\<bar> = - 1022 + int 2045"
    by (intro expSearch_top) simp
  then have e: "exponentOf (pow2 k) = 1023" by (simp add: exponentOf_def)
  have "pow2 k / pow2 971 = pow2 (k - 971)" by (rule pow2_diff)
  also have "\<dots> = real_of_int (2 ^ nat (k - 971))" using assms by (simp add: pow2_def)
  finally have y: "pow2 k / pow2 971 = real_of_int (2 ^ nat (k - 971))" .
  have m: "roundHalfEven (pow2 k / pow2 971) = 2 ^ nat (k - 971)"
    unfolding y by (rule roundHalfEven_int)
  have "real_of_int (2 ^ nat (k - 971)) * pow2 971 = pow2 (k - 971) * pow2 971"
    using assms by (simp add: pow2_def)
  also have "\<dots> = pow2 k" by (simp add: pow2_add [symmetric])
  finally have r: "real_of_int (2 ^ nat (k - 971)) * pow2 971 = pow2 k" .
  have "pow2 1024 \<le> pow2 k" using assms by (rule pow2_mono)
  with p have big: "pow2 1024 \<le> \<bar>pow2 k\<bar>" by simp
  have q: "pow2 (1023 - 52) = pow2 971" by simp
  show ?thesis
    unfolding nearestDouble_def Let_def e q m r using big p by (simp only: if_True)
qed

lemma totalFramesOf_overflow:
  "totalFramesOf (pow2 600) (pow2 600) = PlusInfinity"
proof -
  have "pow2 600 * pow2 600 = pow2 1200" by (simp add: pow2_add [symmetric])
  then show ?thesis
    by (simp add: totalFramesOf_def timesDouble_def nearestDouble_overflow)
qed

section \<open>The crop rectangle over the frames\<close>

lemma advance_accessors:
  "getWidth (advance left s r) = getWidth r - sWidth s"
  "getHeight (advance left s r) = getHeight r"
  "getX (advance left s r) = getX r"
  "getY (advance left s r) = getY r"
  "getWidth (advance right s r) = getWidth r - sWidth s"
  "getX (advance right s r) = getX r + sWidth s"
  "getHeight (advance right s r) = getHeight r"
  "getY (advance right s r) = getY r"
  "getHeight (advance up s r) = getHeight r - sHeight s"
  "getWidth (advance up s r) = getWidth r"
  "getX (advance up s r) = getX r"
  "getY (advance up s r) = getY r"
  "getHeight (advance down s r) = getHeight r - sHeight s"
  "getY (advance down s r) = getY r + sHeight s"
  "getWidth (advance down s r) = getWidth r"
  "getX (advance down s r) = getX r"
  by (simp_all add: rect_accessors Let_def)

lemma advance_funpow_left:
  "getWidth ((advance left s ^^ n) r) = getWidth r - int n * sWidth s
   \<and> getHeight ((advance left s ^^ n) r) = getHeight r
   \<and> getX ((advance left s ^^ n) r) = getX r
   \<and> getY ((advance left s ^^ n) r) = getY r"
  by (induction n) (simp_all del: advance.simps add: advance_accessors algebra_simps)

lemma advance_funpow_right:
  "getWidth ((advance right s ^^ n) r) = getWidth r - int n * sWidth s
   \<and> getHeight ((advance right s ^^ n) r) = getHeight r
   \<and> getX ((advance right s ^^ n) r) = getX r + int n * sWidth s
   \<and> getY ((advance right s ^^ n) r) = getY r"
  by (induction n) (simp_all del: advance.simps add: advance_accessors algebra_simps)

lemma advance_funpow_up:
  "getHeight ((advance up s ^^ n) r) = getHeight r - int n * sHeight s
   \<and> getWidth ((advance up s ^^ n) r) = getWidth r
   \<and> getX ((advance up s ^^ n) r) = getX r
   \<and> getY ((advance up s ^^ n) r) = getY r"
  by (induction n) (simp_all del: advance.simps add: advance_accessors algebra_simps)

lemma advance_funpow_down:
  "getHeight ((advance down s ^^ n) r) = getHeight r - int n * sHeight s
   \<and> getWidth ((advance down s ^^ n) r) = getWidth r
   \<and> getX ((advance down s ^^ n) r) = getX r
   \<and> getY ((advance down s ^^ n) r) = getY r + int n * sHeight s"
  by (induction n) (simp_all del: advance.simps add: advance_accessors algebra_simps)

lemma ceiling_steps_cover:
  assumes "0 < (T::int)"
  shows "a \<le> T * \<lceil>real_of_int a / real_of_int T\<rceil>"
proof -
  have "real_of_int a / real_of_int T \<le> real_of_int \<lceil>real_of_int a / real_of_int T\<rceil>"
    by (rule le_of_int_ceiling)
  moreover from assms have "0 < real_of_int T" by simp
  ultimately have "real_of_int a \<le> real_of_int \<lceil>real_of_int a / real_of_int T\<rceil> * real_of_int T"
    by (simp only: pos_divide_le_eq)
  then have "real_of_int a \<le> real_of_int (T * \<lceil>real_of_int a / real_of_int T\<rceil>)"
    by (simp add: mult.commute)
  then show ?thesis by (simp only: of_int_le_iff)
qed

text \<open>
  Claim C2, as amended. The frame count is \<open>Math.ceil\<close> of the double product
  \<open>fps * length\<close>. For a frame rate and a length above zero whose exact product lies
  above \<open>2 ^ -1075\<close> and not above \<open>2 ^ 53\<close>, the double product is above zero and
  the frame count \<open>T\<close> is a whole number from 1 to \<open>2 ^ 53\<close>. With the shrink step
  \<open>ceil(axis / T)\<close> taken once from the first frame, of width and height at least
  zero, \<open>T\<close> advances from the full-frame rectangle leave the moving dimension at
  \<open>axis - T * step\<close>, which is at most zero and is not clamped; the other size
  component and the position component the direction does not move keep their first
  values. The rectangle's components are whole numbers, on which the double arithmetic
  of the code is exact up to \<open>2 ^ 53\<close>.
\<close>

theorem crop_reaches_zero:
  assumes "0 < fps_value" and "0 < length_value"
    and "pow2 (- 1075) < fps_value * length_value"
    and "fps_value * length_value \<le> pow2 53"
    and "0 \<le> w" and "0 \<le> h"
  shows "\<exists>T. totalFramesOf fps_value length_value = Finite T
     \<and> 1 \<le> T \<and> T \<le> 9007199254740992
     \<and> (let crop = cropToFirstFrame dir T (newSize w h) (newRectangle 0 0 0 0, newSize 0 0);
             r = ((advance dir (snd crop)) ^^ nat T) (fst crop)
         in fst crop = newRectangle 0 0 w h
          \<and> (dir = left \<longrightarrow>
               getWidth r = w - T * \<lceil>real_of_int w / real_of_int T\<rceil> \<and> getWidth r \<le> 0
               \<and> getHeight r = h \<and> getX r = 0 \<and> getY r = 0)
          \<and> (dir = right \<longrightarrow>
               getWidth r = w - T * \<lceil>real_of_int w / real_of_int T\<rceil> \<and> getWidth r \<le> 0
               \<and> getHeight r = h \<and> getY r = 0)
          \<and> (dir = up \<longrightarrow>
               getHeight r = h - T * \<lceil>real_of_int h / real_of_int T\<rceil> \<and> getHeight r \<le> 0
               \<and> getWidth r = w \<and> getX r = 0 \<and> getY r = 0)
          \<and> (dir = down \<longrightarrow>
               getHeight r = h - T * \<lceil>real_of_int h / real_of_int T\<rceil> \<and> getHeight r \<le> 0
               \<and> getWidth r = w \<and> getX r = 0))"
proof -
  from totalFramesOf_in_range [OF assms(3,4)] obtain T where
    tf: "totalFramesOf fps_value length_value = Finite T" and T1: "1 \<le> T"
    and Tu: "T \<le> 9007199254740992"
    by blast
  then have Tn: "int (nat T) = T" by simp
  define crop where
    "crop = cropToFirstFrame dir T (newSize w h) (newRectangle 0 0 0 0, newSize 0 0)"
  have r: "fst crop = newRectangle 0 0 w h"
    by (simp add: crop_def newRectangle_def newSize_def)
  have sh: "snd crop =
         (case dir of
            left \<Rightarrow> newSize \<lceil>real_of_int w / real_of_int T\<rceil> 0
          | right \<Rightarrow> newSize \<lceil>real_of_int w / real_of_int T\<rceil> 0
          | up \<Rightarrow> newSize 0 \<lceil>real_of_int h / real_of_int T\<rceil>
          | down \<Rightarrow> newSize 0 \<lceil>real_of_int h / real_of_int T\<rceil>)"
    by (cases dir) (simp_all add: crop_def newSize_def)
  have r0: "getX (fst crop) = 0" "getY (fst crop) = 0"
    "getWidth (fst crop) = w" "getHeight (fst crop) = h"
    by (simp_all add: r rect_accessors newRectangle_def newSize_def newPoint_def)
  have cw: "w \<le> T * \<lceil>real_of_int w / real_of_int T\<rceil>"
    and ch: "h \<le> T * \<lceil>real_of_int h / real_of_int T\<rceil>"
    using T1 by (simp_all add: ceiling_steps_cover)
  have main: "(let r = ((advance dir (snd crop)) ^^ nat T) (fst crop)
         in (dir = left \<longrightarrow>
               getWidth r = w - T * \<lceil>real_of_int w / real_of_int T\<rceil> \<and> getWidth r \<le> 0
               \<and> getHeight r = h \<and> getX r = 0 \<and> getY r = 0)
          \<and> (dir = right \<longrightarrow>
               getWidth r = w - T * \<lceil>real_of_int w / real_of_int T\<rceil> \<and> getWidth r \<le> 0
               \<and> getHeight r = h \<and> getY r = 0)
          \<and> (dir = up \<longrightarrow>
               getHeight r = h - T * \<lceil>real_of_int h / real_of_int T\<rceil> \<and> getHeight r \<le> 0
               \<and> getWidth r = w \<and> getX r = 0 \<and> getY r = 0)
          \<and> (dir = down \<longrightarrow>
               getHeight r = h - T * \<lceil>real_of_int h / real_of_int T\<rceil> \<and> getHeight r \<le> 0
               \<and> getWidth r = w \<and> getX r = 0))"
    using cw ch T1
    by (cases dir)
      (simp_all del: advance.simps add: Let_def sh r0 Tn newSize_def advance_funpow_left
        advance_funpow_right advance_funpow_up advance_funpow_down)
  have "totalFramesOf fps_value length_value = Finite T
     \<and> 1 \<le> T \<and> T \<le> 9007199254740992
     \<and> (let crop = cropToFirstFrame dir T (newSize w h) (newRectangle 0 0 0 0, newSize 0 0);
             r = ((advance dir (snd crop)) ^^ nat T) (fst crop)
         in fst crop = newRectangle 0 0 w h
          \<and> (dir = left \<longrightarrow>
               getWidth r = w - T * \<lceil>real_of_int w / real_of_int T\<rceil> \<and> getWidth r \<le> 0
               \<and> getHeight r = h \<and> getX r = 0 \<and> getY r = 0)
          \<and> (dir = right \<longrightarrow>
               getWidth r = w - T * \<lceil>real_of_int w / real_of_int T\<rceil> \<and> getWidth r \<le> 0
               \<and> getHeight r = h \<and> getY r = 0)
          \<and> (dir = up \<longrightarrow>
               getHeight r = h - T * \<lceil>real_of_int h / real_of_int T\<rceil> \<and> getHeight r \<le> 0
               \<and> getWidth r = w \<and> getX r = 0 \<and> getY r = 0)
          \<and> (dir = down \<longrightarrow>
               getHeight r = h - T * \<lceil>real_of_int h / real_of_int T\<rceil> \<and> getHeight r \<le> 0
               \<and> getWidth r = w \<and> getX r = 0))"
    unfolding crop_def [symmetric] Let_def
    by (rule conjI [OF tf conjI [OF T1 conjI [OF Tu conjI [OF r main [unfolded Let_def]]]]])
  then show ?thesis by (rule exI [of _ T])
qed

theorem crop_reaches_zero_witness:
  "totalFramesOf 3 1 = Finite 3
   \<and> fst (cropToFirstFrame right 3 (newSize 10 7) (newRectangle 0 0 0 0, newSize 0 0))
       = newRectangle 0 0 10 7
   \<and> getWidth (((advance right (snd (cropToFirstFrame right 3 (newSize 10 7)
          (newRectangle 0 0 0 0, newSize 0 0)))) ^^ 3)
          (fst (cropToFirstFrame right 3 (newSize 10 7) (newRectangle 0 0 0 0, newSize 0 0)))) = - 2
   \<and> getHeight (((advance right (snd (cropToFirstFrame right 3 (newSize 10 7)
          (newRectangle 0 0 0 0, newSize 0 0)))) ^^ 3)
          (fst (cropToFirstFrame right 3 (newSize 10 7) (newRectangle 0 0 0 0, newSize 0 0)))) = 7
   \<and> getY (((advance right (snd (cropToFirstFrame right 3 (newSize 10 7)
          (newRectangle 0 0 0 0, newSize 0 0)))) ^^ 3)
          (fst (cropToFirstFrame right 3 (newSize 10 7) (newRectangle 0 0 0 0, newSize 0 0)))) = 0"
proof -
  have t: "totalFramesOf 3 1 = Finite 3"
    by (simp add: totalFramesOf_def timesDouble_3_1)
  have c: "\<lceil>(10::real) / 3\<rceil> = 4" by (simp add: ceiling_eq_iff)
  have lo: "pow2 (- 1075) < (3::real) * 1"
    using pow2_less [of "- 1075" 0] by (simp add: pow2_def [of 0])
  have hi: "(3::real) * 1 \<le> pow2 53"
    by (simp add: pow2_def)
  have "(0::real) < 3" "(0::real) < 1" "(0::int) \<le> 10" "(0::int) \<le> 7" by simp_all
  from crop_reaches_zero [OF this(1,2) lo hi this(3,4), of right] t c
  show ?thesis by (auto simp: Let_def simp del: advance.simps cropToFirstFrame.simps)
qed

text \<open>
  Claim C2 as it is stated, for every frame rate and length above zero, fails where the
  double product is rounded to zero: \<open>2 ^ -600\<close> is a double above zero, the exact
  product of two of them is \<open>2 ^ -1200\<close>, below half the smallest double, so
  \<open>fps * length\<close> is 0 and \<open>totalFrames\<close> is 0. No advance is applied then, and
  the crop rectangle of a first frame 10 wide keeps the width 10, whatever the shrink
  size is.
\<close>

theorem crop_stays_without_frames_counterexample:
  "0 < pow2 (- 600)
   \<and> nearestDouble (pow2 (- 600)) = Finite (pow2 (- 600))
   \<and> totalFramesOf (pow2 (- 600)) (pow2 (- 600)) = Finite 0
   \<and> fst (cropToFirstFrame right 0 (newSize 10 7) (newRectangle 0 0 0 0, newSize 0 0))
       = newRectangle 0 0 10 7
   \<and> (\<forall>shrink. getWidth (((advance right shrink) ^^ nat 0) (newRectangle 0 0 10 7)) = 10)"
  using pow2_pos [of "- 600"] nearestDouble_pow2 [of "- 600"] totalFramesOf_underflow
  by (simp add: rect_accessors newSize_def newRectangle_def)

lemma firstFrameSetup_fresh:
  assumes "3 \<le> length (lineColor (options g))"
  shows "\<exists>g1. firstFrameSetup (newSize w h) (beginEffect g) = Inr g1
     \<and> totalFrames g1 = totalFrames g \<and> options g1 = options g
     \<and> cropRect g1 = newRectangle 0 0 w h
     \<and> effectCanvas g1 = newSize w h
     \<and> trace g1 = trace (beginEffect g)
     \<and> frameImages g1 = frameImages g \<and> currentFrameNum g1 = currentFrameNum g
     \<and> cropRectShrinkSize g1 =
         (case lineDirection (options g) of
            left \<Rightarrow> newSize \<lceil>real_of_int w / real_of_int (totalFrames g)\<rceil> 0
          | right \<Rightarrow> newSize \<lceil>real_of_int w / real_of_int (totalFrames g)\<rceil> 0
          | up \<Rightarrow> newSize 0 \<lceil>real_of_int h / real_of_int (totalFrames g)\<rceil>
          | down \<Rightarrow> newSize 0 \<lceil>real_of_int h / real_of_int (totalFrames g)\<rceil>)"
  using assms
  by (cases "lineDirection (options g)")
    (simp_all add: firstFrameSetup_def beginEffect_def Let_def emit_def newSize_def
      newRectangle_def newPoint_def)

lemma Generate_totalFrames:
  "Generate existsSync g = Inr (events, Some g') \<Longrightarrow>
     totalFramesOf (fps (options g)) (length' (options g)) = Finite (totalFrames g')
     \<and> options g' = options g \<and> currentFrameNum g' = 0 \<and> trace g' = events"
  by (auto simp: Generate_def Let_def emit_def split: if_splits JsNumber.splits)

lemma strokeXs_append: "strokeXs (xs @ ys) = strokeXs xs @ strokeXs ys"
  by (induction xs rule: strokeXs.induct) simp_all

lemma drawnRects_append: "drawnRects (xs @ ys) = drawnRects xs @ drawnRects ys"
  by (induction xs rule: drawnRects.induct) simp_all

lemma firstFrameSetup_ready:
  "sWidth (effectCanvas g) \<noteq> 0 \<Longrightarrow> firstFrameSetup img g = Inr g"
  by (simp add: firstFrameSetup_def)

lemma DoEffectSingleFrame_right_ready:
  assumes "lineDirection (options g) = right" and "sWidth (effectCanvas g) \<noteq> 0"
    and "DoEffectSingleFrame loadImage (Some f) g = Inr g'"
  shows "trace g' = trace g @ [DrawImage (cropRect g),
            Stroke (newPoint (getX (cropRect g)) 0)
                   (newPoint (getX (cropRect g)) (getHeight (cropRect g))),
            StdinWrite (currentFrameNum g)]
     \<and> getX (cropRect g') = getX (cropRect g) + sWidth (cropRectShrinkSize g)
     \<and> cropRectShrinkSize g' = cropRectShrinkSize g
     \<and> effectCanvas g' = effectCanvas g"
proof -
  from assms(3) obtain img where l: "loadImage f = Inr img"
    by (auto simp: DoEffectSingleFrame_def split: sum.splits)
  from assms l firstFrameSetup_ready [OF assms(2), of img] show ?thesis
    by (auto simp del: advance.simps
        simp: DoEffectSingleFrame_def Let_def emit_def advance_accessors)
qed

lemma map_upt_shift:
  "map f [0 ..< Suc n] = f 0 # map (\<lambda>i. f (Suc i)) [0 ..< n]"
proof -
  have "[0 ..< Suc n] = 0 # map Suc [0 ..< n]"
    by (simp add: upt_conv_Cons map_Suc_upt del: upt_Suc)
  then show ?thesis by (simp add: comp_def del: upt_Suc)
qed

lemma runFrames_right_ready:
  assumes "lineDirection (options g) = right" and "sWidth (effectCanvas g) \<noteq> 0"
    and "\<forall>f \<in> set (frameImages g). \<exists>img. loadImage f = Inr img"
  shows "\<exists>new. trace (runFrames loadImage g) = trace g @ new
     \<and> strokeXs new = map (\<lambda>i. getX (cropRect g) + int i * sWidth (cropRectShrinkSize g))
                         [0 ..< length (frameImages g) - currentFrameNum g]
     \<and> map getX (drawnRects new) = strokeXs new"
  using assms
proof (induction g rule: runFrames_step_induct [where loadImage = loadImage])
  case (1 g)
  show ?case
  proof (cases rule: runFrames_cases [where g = g and loadImage = loadImage])
    case (finished g1)
    then show ?thesis
      by (auto simp: GetNextFrame_def emit_def split: if_splits)
  next
    case (rejected f g1 e)
    from rejected(1) have "f \<in> set (frameImages g)" and "g1 = g\<lparr>currentFrameNum := currentFrameNum g + 1\<rparr>"
      by (auto simp: GetNextFrame_def split: if_splits)
    with "1.prems" obtain img where "loadImage f = Inr img"
      and "firstFrameSetup img g1 = Inr g1"
      by (auto simp: firstFrameSetup_def)
    with rejected(2) show ?thesis
      by (simp add: DoEffectSingleFrame_def Let_def)
  next
    case (next_frame f g1 g2)
    from next_frame(1) have lt: "currentFrameNum g < length (frameImages g)"
      and g1: "g1 = g\<lparr>currentFrameNum := currentFrameNum g + 1\<rparr>"
      by (auto simp: GetNextFrame_def split: if_splits)
    have p1: "lineDirection (options g1) = right" "sWidth (effectCanvas g1) \<noteq> 0"
      using "1.prems" by (simp_all add: g1)
    note st = DoEffectSingleFrame_right_ready [OF p1 next_frame(2)]
    note k2 = DoEffectSingleFrame_keeps [OF next_frame(2)]
    note f2 = DoEffectSingleFrame_frames [OF next_frame(2)]
    have p2: "lineDirection (options g2) = right" "sWidth (effectCanvas g2) \<noteq> 0"
      "\<forall>f \<in> set (frameImages g2). \<exists>img. loadImage f = Inr img"
      using p1 st k2 "1.prems"(3) by (simp_all add: g1)
    from "1.IH" [OF next_frame(1,2) p2] obtain new2 where
      t2: "trace (runFrames loadImage g2) = trace g2 @ new2"
      and x2: "strokeXs new2 = map (\<lambda>i. getX (cropRect g2) + int i * sWidth (cropRectShrinkSize g2))
                         [0 ..< length (frameImages g2) - currentFrameNum g2]"
      and d2: "map getX (drawnRects new2) = strokeXs new2"
      by blast
    define ev where "ev = [DrawImage (cropRect g),
            Stroke (newPoint (getX (cropRect g)) 0)
                   (newPoint (getX (cropRect g)) (getHeight (cropRect g))),
            StdinWrite (currentFrameNum g + 1)]"
    have tr: "trace (runFrames loadImage g) = trace g @ (ev @ new2)"
      using next_frame(3) t2 st by (simp add: g1 ev_def)
    have n: "length (frameImages g) - currentFrameNum g
               = Suc (length (frameImages g2) - currentFrameNum g2)"
      using lt f2 by (simp add: g1)
    have xs: "strokeXs (ev @ new2)
        = map (\<lambda>i. getX (cropRect g) + int i * sWidth (cropRectShrinkSize g))
            [0 ..< length (frameImages g) - currentFrameNum g]"
      unfolding n map_upt_shift
      using st x2 by (simp add: ev_def g1 newPoint_def algebra_simps)
    have ds: "map getX (drawnRects (ev @ new2)) = strokeXs (ev @ new2)"
      using d2 by (simp add: ev_def newPoint_def)
    from tr xs ds show ?thesis by blast
  qed
qed


lemma sorted_steps:
  assumes "0 < (s::int)"
  shows "sorted_wrt (<) (map (\<lambda>i. int i * s) [0 ..< n])"
proof -
  have "sorted_wrt (\<lambda>x y. int x * s < int y * s) [0 ..< n]"
    by (rule sorted_wrt_mono_rel [OF _ sorted_wrt_upt]) (use assms in simp)
  then show ?thesis by (simp add: sorted_wrt_map)
qed

lemma shrink_step_pos:
  assumes "1 \<le> (w::int)" and "1 \<le> (T::int)"
  shows "1 \<le> \<lceil>real_of_int w / real_of_int T\<rceil>"
proof -
  from assms have "0 < real_of_int w / real_of_int T" by simp
  then have "0 < \<lceil>real_of_int w / real_of_int T\<rceil>" by (simp add: ceiling_less_iff)
  then show ?thesis by simp
qed

lemma beginEffect_currentFrameNum:
  "(beginEffect g)\<lparr>currentFrameNum := c\<rparr> = beginEffect (g\<lparr>currentFrameNum := c\<rparr>)"
  by (simp add: beginEffect_def Let_def emit_def)

lemma beginEffect_fields:
  "frameImages (beginEffect g) = frameImages g"
  "currentFrameNum (beginEffect g) = currentFrameNum g"
  "options (beginEffect g) = options g"
  "totalFrames (beginEffect g) = totalFrames g"
  by (simp_all add: beginEffect_def Let_def emit_def)

lemma line_right_steps:
  assumes dir: "lineDirection (options g) = right"
    and T: "1 \<le> totalFrames g"
    and loads: "\<forall>f \<in> set (frameImages g). \<exists>img. loadImage f = Inr img \<and> 1 \<le> sWidth img"
    and col: "3 \<le> length (lineColor (options g))"
    and first: "currentFrameNum g < length (frameImages g)"
    and img0: "loadImage (frameImages g ! currentFrameNum g) = Inr img0"
  shows "\<exists>new. trace (DoEffect loadImage g) = trace (beginEffect g) @ new
     \<and> strokeXs new = map getX (drawnRects new)
     \<and> strokeXs new =
          map (\<lambda>i. int i * \<lceil>real_of_int (sWidth img0) / real_of_int (totalFrames g)\<rceil>)
            [0 ..< length (frameImages g) - currentFrameNum g]
     \<and> sorted_wrt (<) (strokeXs new)"
proof -
  define step where "step = \<lceil>real_of_int (sWidth img0) / real_of_int (totalFrames g)\<rceil>"
  define c where "c = currentFrameNum g"
  define f0 where "f0 = frameImages g ! c"
  define g0 where "g0 = beginEffect g"
  define ga where "ga = g\<lparr>currentFrameNum := c + 1\<rparr>"
  have f0_in: "f0 \<in> set (frameImages g)" using first by (simp add: f0_def c_def)
  with loads img0 have w0: "1 \<le> sWidth img0" by (auto simp: f0_def c_def)
  have step1: "1 \<le> step" unfolding step_def using w0 T by (rule shrink_step_pos)
  have nx: "GetNextFrame g0 = (Some f0, beginEffect ga)"
    using first
    by (simp add: GetNextFrame_def g0_def beginEffect_fields f0_def c_def ga_def
        beginEffect_currentFrameNum)
  have img0': "newSize (sWidth img0) (sHeight img0) = img0" by (simp add: newSize_def)
  from firstFrameSetup_fresh [of ga "sWidth img0" "sHeight img0"] col dir obtain g1 where
    s: "firstFrameSetup img0 (beginEffect ga) = Inr g1"
    and g1: "options g1 = options g" "cropRect g1 = newRectangle 0 0 (sWidth img0) (sHeight img0)"
      "effectCanvas g1 = img0" "trace g1 = trace g0" "frameImages g1 = frameImages g"
      "currentFrameNum g1 = c + 1" "cropRectShrinkSize g1 = newSize step 0"
    by (auto simp: img0' ga_def step_def g0_def beginEffect_def Let_def emit_def)
  define ev where "ev = [DrawImage (cropRect g1), Stroke (newPoint 0 0) (newPoint 0 (sHeight img0)),
      StdinWrite (c + 1)]"
  define g2 where "g2 = g1\<lparr>trace := trace g0 @ ev,
      cropRect := advance right (cropRectShrinkSize g1) (cropRect g1)\<rparr>"
  have x1: "getX (cropRect g1) = 0" "getHeight (cropRect g1) = sHeight img0"
    by (simp_all add: g1 rect_accessors newRectangle_def newPoint_def newSize_def)
  have d: "DoEffectSingleFrame loadImage (Some f0) (beginEffect ga) = Inr g2"
    using img0 s g1 x1 dir
    by (simp del: advance.simps
        add: DoEffectSingleFrame_def f0_def c_def Let_def emit_def g2_def ev_def)
  have run: "runFrames loadImage g0 = runFrames loadImage g2"
    using nx d by (simp add: runFrames.simps [of loadImage g0])
  have g2p: "lineDirection (options g2) = right" "sWidth (effectCanvas g2) \<noteq> 0"
    "\<forall>f \<in> set (frameImages g2). \<exists>img. loadImage f = Inr img"
    using dir w0 loads by (auto simp: g2_def g1)
  define m where "m = length (frameImages g) - c - 1"
  have g2x: "getX (cropRect g2) = step" "sWidth (cropRectShrinkSize g2) = step"
    "length (frameImages g2) - currentFrameNum g2 = m"
    unfolding m_def
    by (simp_all del: advance.simps add: g2_def g1(5,6,7) advance_accessors x1 newSize_def)
  from runFrames_right_ready [OF g2p] obtain new2 where
    t2: "trace (runFrames loadImage g2) = trace g2 @ new2"
    and x2: "strokeXs new2 = map (\<lambda>i. step + int i * step) [0 ..< m]"
    and d2: "map getX (drawnRects new2) = strokeXs new2"
    unfolding g2x by blast
  have n: "length (frameImages g) - c = Suc m"
    using first by (simp add: c_def m_def)
  have tr: "trace (DoEffect loadImage g) = trace (beginEffect g) @ (ev @ new2)"
    using run t2 by (simp add: DoEffect_def g0_def [symmetric] g2_def)
  have xs: "strokeXs (ev @ new2) = map (\<lambda>i. int i * step) [0 ..< length (frameImages g) - c]"
    unfolding n map_upt_shift using x2
    by (simp add: ev_def strokeXs_append newPoint_def algebra_simps)
  have ds: "strokeXs (ev @ new2) = map getX (drawnRects (ev @ new2))"
    using d2 by (simp add: ev_def strokeXs_append drawnRects_append x1 newPoint_def)
  have so: "sorted_wrt (<) (strokeXs (ev @ new2))"
    unfolding xs using step1 by (intro sorted_steps) simp
  from tr ds xs so show ?thesis
    unfolding step_def c_def by blast
qed



lemma line_right_example:
  "\<exists>new. trace (DoEffect (\<lambda>f. Inr (newSize 10 7)) (exampleGenerator\<lparr>frameImages := [[1], [2], [3]]\<rparr>))
            = trace (beginEffect (exampleGenerator\<lparr>frameImages := [[1], [2], [3]]\<rparr>)) @ new
     \<and> strokeXs new = [0, 4, 8]"
proof -
  have o: "totalFrames exampleGenerator = 3" "lineDirection (options exampleGenerator) = right"
    "lineColor (options exampleGenerator) = [0, 194, 203]" "currentFrameNum exampleGenerator = 0"
    by (simp_all add: exampleGenerator_def)
  have c: "\<lceil>(10::real) / 3\<rceil> = 4" by (simp add: ceiling_eq_iff)
  have u: "[0 ..< 3] = [0, 1, 2]" by (simp add: upt_rec)
  from line_right_steps [of "exampleGenerator\<lparr>frameImages := [[1], [2], [3]]\<rparr>"
      "\<lambda>f. Inr (newSize 10 7)" "newSize 10 7"]
  show ?thesis by (auto simp: o c u newSize_def)
qed






section \<open>The extraction of the frames\<close>

lemma occursAt_in_range: "v \<noteq> [] \<Longrightarrow> occursAt v buf q \<Longrightarrow> q + length v \<le> length buf"
proof -
  assume v: "v \<noteq> []" and o: "occursAt v buf q"
  from o have "length (take (length v) (drop q buf)) = length v"
    by (simp add: occursAt_def)
  then show ?thesis using v by (cases v) auto
qed

lemma occursAt_Cons_Suc: "occursAt v (b # bs) (Suc j) = occursAt v bs j"
  by (simp add: occursAt_def)

lemma searchFrom_none:
  "v \<noteq> [] \<Longrightarrow> \<forall>j. \<not> occursAt v xs j \<Longrightarrow> searchFrom v xs i = - 1"
proof (induction xs arbitrary: i)
  case Nil
  then show ?case by simp
next
  case (Cons b bs)
  from Cons.prems(2) have "\<not> occursAt v (b # bs) 0" by blast
  moreover from Cons.prems(2) have "\<forall>j. \<not> occursAt v bs j"
    using occursAt_Cons_Suc [of v b bs] by blast
  ultimately show ?case using Cons.IH [OF Cons.prems(1)] by (simp add: occursAt_def)
qed

lemma searchFrom_first:
  "v \<noteq> [] \<Longrightarrow> occursAt v xs j \<Longrightarrow> \<forall>k < j. \<not> occursAt v xs k
     \<Longrightarrow> searchFrom v xs i = int (i + j)"
proof (induction xs arbitrary: i j)
  case Nil
  from occursAt_in_range [OF Nil(1,2)] Nil(1) show ?case by simp
next
  case (Cons b bs)
  show ?case
  proof (cases j)
    case 0
    with Cons.prems(2) show ?thesis by (simp add: occursAt_def)
  next
    case (Suc j')
    with Cons.prems(3) have n0: "\<not> occursAt v (b # bs) 0" by blast
    from Cons.prems(2) Suc have o: "occursAt v bs j'" by (simp add: occursAt_Cons_Suc)
    from Cons.prems(3) Suc have "\<forall>k < j'. \<not> occursAt v bs k"
      using occursAt_Cons_Suc [of v b bs] by auto
    from Cons.IH [OF Cons.prems(1) o this, of "Suc i"] n0 Suc show ?thesis
      by (simp add: occursAt_def)
  qed
qed

lemma occursAt_drop: "occursAt v (drop off buf) j = occursAt v buf (off + j)"
  by (simp add: occursAt_def add.commute)

lemma indexOf_none:
  assumes "v \<noteq> []" and "\<forall>k \<ge> off. \<not> occursAt v buf k"
  shows "indexOf buf v (int off) = - 1"
proof -
  have c: "clampIndex (length buf) (int off) = min off (length buf)"
    by (simp add: clampIndex_def)
  have "\<forall>j. \<not> occursAt v (drop (min off (length buf)) buf) j"
  proof
    fix j
    show "\<not> occursAt v (drop (min off (length buf)) buf) j"
    proof (cases "off \<le> length buf")
      case True
      with assms(2) show ?thesis by (simp add: occursAt_drop min_def)
    next
      case False
      then show ?thesis using occursAt_in_range [OF assms(1), of "drop (min off (length buf)) buf" j] assms(1)
        by (auto simp: min_def)
    qed
  qed
  from searchFrom_none [OF assms(1) this] show ?thesis
    by (simp add: indexOf_def c Let_def)
qed

lemma indexOf_first:
  assumes "v \<noteq> []" and "off \<le> j" and "occursAt v buf j"
    and "\<forall>k. off \<le> k \<and> k < j \<longrightarrow> \<not> occursAt v buf k"
  shows "indexOf buf v (int off) = int j"
proof -
  from occursAt_in_range [OF assms(1,3)] assms(2) have le: "off \<le> length buf" by simp
  then have c: "clampIndex (length buf) (int off) = off"
    by (simp add: clampIndex_def)
  have o: "occursAt v (drop off buf) (j - off)"
    using assms(2,3) by (simp add: occursAt_drop)
  have "\<forall>k < j - off. \<not> occursAt v (drop off buf) k"
    using assms(4) by (auto simp: occursAt_drop)
  from searchFrom_first [OF assms(1) o this, of off] assms(2) show ?thesis
    by (simp add: indexOf_def c Let_def)
qed

lemma imageOffsets_ge: "q \<in> set (imageOffsets p imgs) \<Longrightarrow> p \<le> q"
proof (induction imgs arbitrary: p)
  case Nil
  then show ?case by simp
next
  case (Cons a imgs)
  from Cons.prems have "q = p \<or> q \<in> set (imageOffsets (p + length a) imgs)" by simp
  then show ?case
  proof
    assume "q = p" then show ?thesis by simp
  next
    assume "q \<in> set (imageOffsets (p + length a) imgs)"
    from Cons.IH [OF this] show ?thesis by simp
  qed
qed

lemma slice_middle:
  "slice (pre @ img @ post) (int (length pre)) (int (length pre + length img)) = img"
  by (simp add: slice_def clampIndex_def Let_def)

lemma sliceFrom_end: "sliceFrom (pre @ img) (int (length pre)) = img"
  by (simp add: sliceFrom_def slice_def clampIndex_def Let_def)

lemma extractLoop_images:
  assumes "\<forall>x \<in> set (img # rest). startsWithMagic codec x"
    and "\<forall>q \<ge> length pre. occursAt (magicNumber codec) (pre @ concat (img # rest)) q
           \<longrightarrow> q \<in> set (imageOffsets (length pre) (img # rest))"
  shows "extractLoop codec (pre @ concat (img # rest)) (int (length pre))
           (indexOf (pre @ concat (img # rest)) (magicNumber codec)
              (int (length pre) + int (length (magicNumber codec)))) acc
         = acc @ img # rest"
  using assms
proof (induction rest arbitrary: pre img acc)
  case Nil
  define m where "m = magicNumber codec"
  have ne: "m \<noteq> []" using magicNumber_length [of codec] by (simp add: m_def)
  have "\<forall>k \<ge> length pre + length m. \<not> occursAt m (pre @ img) k"
  proof (intro allI impI notI)
    fix k assume k: "length pre + length m \<le> k" and o: "occursAt m (pre @ img) k"
    with Nil.prems(2) have "k = length pre" by (auto simp: m_def)
    with k ne show False by simp
  qed
  from indexOf_none [OF ne this]
  have e: "indexOf (pre @ img) m (int (length pre) + int (length m)) = - 1" by simp
  show ?case
    using e unfolding m_def
    by (simp add: extractLoop.simps [of codec "pre @ img"] sliceFrom_end)
next
  case (Cons img2 rest)
  define m where "m = magicNumber codec"
  define buf where "buf = pre @ concat (img # img2 # rest)"
  have ne: "m \<noteq> []" using magicNumber_length [of codec] by (simp add: m_def)
  from Cons.prems(1) have s1: "occursAt m img 0" and s2: "occursAt m img2 0"
    by (simp_all add: startsWithMagic_def m_def)
  from occursAt_in_range [OF ne s1] have l1: "length m \<le> length img" by simp
  from occursAt_in_range [OF ne s2] have l2: "length m \<le> length img2" by simp
  have only: "\<forall>q \<ge> length pre. occursAt m buf q
           \<longrightarrow> q = length pre \<or> q \<in> set (imageOffsets (length pre + length img) (img2 # rest))"
    using Cons.prems(2) by (simp add: m_def buf_def)
  have at: "occursAt m buf (length pre + length img)"
    using s2 l2 by (simp add: occursAt_def buf_def)
  have between: "\<forall>k. length pre + length m \<le> k \<and> k < length pre + length img \<longrightarrow> \<not> occursAt m buf k"
  proof (intro allI impI notI)
    fix k assume k: "length pre + length m \<le> k \<and> k < length pre + length img"
      and o: "occursAt m buf k"
    from k have "length pre \<le> k" by simp
    with only o have "k = length pre \<or> k \<in> set (imageOffsets (length pre + length img) (img2 # rest))"
      by blast
    then show False
    proof
      assume "k = length pre" with k ne show False by simp
    next
      assume "k \<in> set (imageOffsets (length pre + length img) (img2 # rest))"
      from imageOffsets_ge [OF this] k show False by simp
    qed
  qed
  from indexOf_first [OF ne _ at between] l1
  have e: "indexOf buf m (int (length pre) + int (length m)) = int (length pre + length img)"
    by simp
  have sl: "slice buf (int (length pre)) (int (length pre + length img)) = img"
    unfolding buf_def using slice_middle [of pre img "concat (img2 # rest)"] by simp
  have mg': "\<forall>x \<in> set (img2 # rest). startsWithMagic codec x"
    using Cons.prems(1) by simp
  have only': "\<forall>q \<ge> length (pre @ img). occursAt (magicNumber codec) ((pre @ img) @ concat (img2 # rest)) q
           \<longrightarrow> q \<in> set (imageOffsets (length (pre @ img)) (img2 # rest))"
  proof (intro allI impI)
    fix q assume q: "length (pre @ img) \<le> q"
      and o: "occursAt (magicNumber codec) ((pre @ img) @ concat (img2 # rest)) q"
    from q l1 ne have lt: "length pre < q" by (cases m) auto
    from o have "occursAt m buf q" by (simp add: m_def buf_def)
    with only lt have "q = length pre \<or> q \<in> set (imageOffsets (length pre + length img) (img2 # rest))"
      by (metis less_imp_le)
    with lt show "q \<in> set (imageOffsets (length (pre @ img)) (img2 # rest))"
      by (simp del: imageOffsets.simps)
  qed
  from Cons.IH [OF mg' only', of "acc @ [img]"]
  have ih: "extractLoop codec buf (int (length pre + length img))
           (indexOf buf m (int (length pre + length img) + int (length m))) (acc @ [img])
         = acc @ img # img2 # rest"
    by (simp add: buf_def m_def)
  have "extractLoop codec buf (int (length pre)) (indexOf buf m (int (length pre) + int (length m))) acc
      = acc @ img # img2 # rest"
    using ih e sl
    by (simp add: extractLoop.simps [of codec buf "int (length pre)"] m_def)
  then show ?case by (simp add: buf_def m_def)
qed


lemma occursAt_beyond: "v \<noteq> [] \<Longrightarrow> length buf \<le> q \<Longrightarrow> \<not> occursAt v buf q"
  using occursAt_in_range [of v buf q] by (cases v) auto

lemma extractFrames_images:
  assumes "\<forall>img \<in> set imgs. startsWithMagic codec img" and "magicOnlyAtStarts codec imgs"
  shows "extractFrames codec (concat imgs) = imgs"
proof (cases imgs)
  case Nil
  have "indexOf [] (magicNumber codec) 0 = - 1"
    using magicNumber_length [of codec] by (simp add: indexOf_def clampIndex_def)
  with Nil show ?thesis
    by (simp add: extractFrames_def Let_def extractLoop.simps [of codec "[]" "- 1"])
next
  case (Cons img rest)
  define m where "m = magicNumber codec"
  have ne: "m \<noteq> []" using magicNumber_length [of codec] by (simp add: m_def)
  from assms(1) Cons have s: "occursAt m img 0" by (simp add: startsWithMagic_def m_def)
  from occursAt_in_range [OF ne s] have l: "length m \<le> length img" by simp
  have o0: "occursAt m (concat imgs) 0"
    using s l by (simp add: Cons occursAt_def)
  from indexOf_first [OF ne _ o0, of 0]
  have st: "indexOf (concat imgs) m 0 = 0" by simp
  have only: "\<forall>q \<ge> length ([]::Buffer). occursAt (magicNumber codec) ([] @ concat (img # rest)) q
           \<longrightarrow> q \<in> set (imageOffsets (length ([]::Buffer)) (img # rest))"
  proof (intro allI impI)
    fix q assume o: "occursAt (magicNumber codec) ([] @ concat (img # rest)) q"
    from occursAt_beyond [OF ne, of "concat imgs" q] o
    have "q < length (concat imgs)" by (auto simp: Cons m_def not_le [symmetric])
    with assms(2) o show "q \<in> set (imageOffsets (length ([]::Buffer)) (img # rest))"
      by (simp add: magicOnlyAtStarts_def Cons del: imageOffsets.simps)
  qed
  from extractLoop_images [of img rest codec "[]" "[]"] assms(1) only
  have "extractLoop codec (concat imgs) 0
           (indexOf (concat imgs) m (int (length m))) [] = imgs"
    by (simp add: Cons m_def del: imageOffsets.simps)
  with st show ?thesis
    by (simp add: extractFrames_def Let_def m_def)
qed

lemma extractFrames_noMagic:
  assumes "noMagic codec buf"
  shows "extractFrames codec buf = []"
proof -
  define m where "m = magicNumber codec"
  have ne: "m \<noteq> []" using magicNumber_length [of codec] by (simp add: m_def)
  have "\<forall>k \<ge> 0. \<not> occursAt m buf k"
  proof (intro allI impI)
    fix k show "\<not> occursAt m buf k"
    proof (cases "k < length buf")
      case True
      with assms show ?thesis by (simp add: noMagic_def m_def)
    next
      case False
      then show ?thesis using occursAt_beyond [OF ne, of buf k] by simp
    qed
  qed
  from indexOf_none [OF ne this] have "indexOf buf m 0 = - 1" by simp
  then show ?thesis
    by (simp add: extractFrames_def Let_def m_def extractLoop.simps [of codec buf "- 1"])
qed

text \<open>
  Claim C1, as amended. Let a buffer be \<open>k\<close> images laid end to end (\<open>k \<ge> 0\<close>), each
  starting with the codec's magic number, and let the magic number occur in the buffer
  only at the images' starts. Then the scan returns exactly these \<open>k\<close> images, in
  order and byte for byte. And a buffer in which the magic number does not occur gives
  the empty list, not an error.
\<close>

theorem extractFrames_recovers_images:
  "((\<forall>img \<in> set imgs. startsWithMagic codec img) \<and> magicOnlyAtStarts codec imgs
      \<longrightarrow> extractFrames codec (concat imgs) = imgs)
   \<and> (noMagic codec buf \<longrightarrow> extractFrames codec buf = [])"
  using extractFrames_images [of imgs codec] extractFrames_noMagic [of codec buf] by blast

theorem extractFrames_recovers_images_witness:
  "extractFrames mjpeg (concat [[0xff, 0xd8, 0xff, 1, 2], [0xff, 0xd8, 0xff, 3]])
     = [[0xff, 0xd8, 0xff, 1, 2], [0xff, 0xd8, 0xff, 3]]
   \<and> extractFrames mjpeg [1, 2, 3, 4, 5] = []"
proof -
  have a: "\<forall>img \<in> set [[0xff, 0xd8, 0xff, 1, 2], [0xff, 0xd8, 0xff, 3 :: byte]].
             startsWithMagic mjpeg img"
    by code_simp
  have b: "magicOnlyAtStarts mjpeg [[0xff, 0xd8, 0xff, 1, 2], [0xff, 0xd8, 0xff, 3]]"
    by code_simp
  have c: "noMagic mjpeg [1, 2, 3, 4, 5]"
    by code_simp
  from extractFrames_recovers_images [of "[[0xff, 0xd8, 0xff, 1, 2], [0xff, 0xd8, 0xff, 3]]"
      mjpeg "[1, 2, 3, 4, 5]"] a b c
  show ?thesis by blast
qed

text \<open>
  Claim C1 as it is stated fails: the scan knows an image only by the magic number, so
  a single image whose data holds the four bytes of the PNG signature once more comes
  back as two frames.
\<close>

theorem extractFrames_splits_image_counterexample:
  "startsWithMagic png [0x89, 0x50, 0x4e, 0x47, 0, 0x89, 0x50, 0x4e, 0x47, 1]
   \<and> extractFrames png (concat [[0x89, 0x50, 0x4e, 0x47, 0, 0x89, 0x50, 0x4e, 0x47, 1]])
       = [[0x89, 0x50, 0x4e, 0x47, 0], [0x89, 0x50, 0x4e, 0x47, 1]]
   \<and> extractFrames png (concat [[0x89, 0x50, 0x4e, 0x47, 0, 0x89, 0x50, 0x4e, 0x47, 1]])
       \<noteq> [[0x89, 0x50, 0x4e, 0x47, 0, 0x89, 0x50, 0x4e, 0x47, 1]]"
  by code_simp

end
